theory Spec2Isabelle
  imports Complex_Main
begin

section \<open>Python values\<close>

text \<open>
  A Python 3 \<open>str\<close> is a sequence of Unicode code points; a code point is a natural number
  here, and \<open>ustr\<close> turns an ASCII literal into such a sequence. Tensors are nested lists of
  reals: the notebook's own functions only ever store the values 0 and 1 in them, and a
  floating-point literal is the decimal number it writes. The layers, the gradients and
  the update of the parameters belong to the library and are parameters of the model, with
  whatever rounding they do; the loss terms, their sum and its division by the length of
  the line are taken over the reals. An exception is an \<open>error\<close>; \<open>ReadError\<close> stands for
  whatever \<open>open\<close> and \<open>read\<close> raise on a file that cannot be opened or decoded.
\<close>

type_synonym uchar = nat
type_synonym ustring = "nat list"
type_synonym vec = "real list"
type_synonym mat = "real list list"
type_synonym tensor3 = "real list list list"

datatype error =
    ValueError
  | IndexError
  | AttributeError
  | UnboundLocalError
  | ReadError
  | RuntimeError string

definition ustr :: "string \<Rightarrow> ustring" where
  "ustr s = map of_char s"

fun ebind :: "error + 'a \<Rightarrow> ('a \<Rightarrow> error + 'b) \<Rightarrow> error + 'b" where
  "ebind (Inl e) f = Inl e"
| "ebind (Inr v) f = f v"

text \<open>\<open>s.find(c)\<close> for a single character \<open>c\<close>: the first index of \<open>c\<close>, or -1.\<close>

fun str_find :: "'a list \<Rightarrow> 'a \<Rightarrow> int" where
  "str_find [] c = -1"
| "str_find (x # xs) c =
     (if x = c then 0 else (let r = str_find xs c in if r < 0 then -1 else r + 1))"

text \<open>\<open>l.index(x)\<close>: the first index of \<open>x\<close>; raises ValueError when \<open>x\<close> is absent.\<close>

fun list_index :: "'a list \<Rightarrow> 'a \<Rightarrow> error + nat" where
  "list_index [] x = Inl ValueError"
| "list_index (y # ys) x =
     (if y = x then Inr 0
      else (case list_index ys x of Inl e \<Rightarrow> Inl e | Inr i \<Rightarrow> Inr (Suc i)))"

text \<open>
  Indexing with a Python integer: a negative index counts from the end, and an index
  outside the sequence raises IndexError.
\<close>

definition py_index :: "nat \<Rightarrow> int \<Rightarrow> error + nat" where
  "py_index n i =
     (let j = (if i < 0 then int n + i else i)
      in if 0 \<le> j \<and> j < int n then Inr (nat j) else Inl IndexError)"

definition getitem :: "'a list \<Rightarrow> int \<Rightarrow> error + 'a" where
  "getitem xs i = ebind (py_index (length xs) i) (\<lambda>j. Inr (xs ! j))"

definition setitem :: "'a list \<Rightarrow> int \<Rightarrow> 'a \<Rightarrow> error + 'a list" where
  "setitem xs i v = ebind (py_index (length xs) i) (\<lambda>j. Inr (xs[j := v]))"

text \<open>\<open>t[i][j] = v\<close> and \<open>t[i][j][k] = v\<close> on nested tensors.\<close>

definition setitem2 :: "'a list list \<Rightarrow> int \<Rightarrow> int \<Rightarrow> 'a \<Rightarrow> error + 'a list list" where
  "setitem2 t i j v =
     ebind (getitem t i) (\<lambda>row. ebind (setitem row j v) (\<lambda>row'. setitem t i row'))"

definition setitem3 ::
  "'a list list list \<Rightarrow> int \<Rightarrow> int \<Rightarrow> int \<Rightarrow> 'a \<Rightarrow> error + 'a list list list" where
  "setitem3 t i j k v =
     ebind (getitem t i) (\<lambda>m. ebind (setitem2 m j k v) (\<lambda>m'. setitem t i m'))"

definition zeros1 :: "nat \<Rightarrow> vec" where
  "zeros1 n = replicate n 0"

definition zeros2 :: "nat \<Rightarrow> nat \<Rightarrow> mat" where
  "zeros2 m n = replicate m (zeros1 n)"

definition zeros3 :: "nat \<Rightarrow> nat \<Rightarrow> nat \<Rightarrow> tensor3" where
  "zeros3 l m n = replicate l (zeros2 m n)"

section \<open>Preparing the data\<close>

definition ascii_lowercase :: string where
  "ascii_lowercase = ''abcdefghijklmnopqrstuvwxyz''"

definition ascii_uppercase :: string where
  "ascii_uppercase = ''ABCDEFGHIJKLMNOPQRSTUVWXYZ''"

definition ascii_letters :: string where
  "ascii_letters = ascii_lowercase @ ascii_uppercase"

definition all_letters :: ustring where
  "all_letters = ustr (ascii_letters @ '' .,;'-'')"

definition n_letters :: nat where
  "n_letters = length all_letters + 1"

text \<open>
  The two functions of Python's \<open>unicodedata\<close> module that the notebook calls are
  parameters of the model: \<open>normalize form s\<close> and \<open>category c\<close>.
\<close>

record unicodedata =
  unicodedata_normalize :: "string \<Rightarrow> ustring \<Rightarrow> ustring"
  unicodedata_category :: "uchar \<Rightarrow> string"

definition unicodeToAscii :: "unicodedata \<Rightarrow> ustring \<Rightarrow> ustring" where
  "unicodeToAscii ud s =
     filter (\<lambda>c. unicodedata_category ud c \<noteq> ''Mn'' \<and> c \<in> set all_letters)
       (unicodedata_normalize ud ''NFD'' s)"

text \<open>
  What the Unicode standard guarantees about the characters of \<open>all_letters\<close>, all of
  them ASCII: a string of ASCII characters is its own canonical decomposition, and none
  of them is a nonspacing mark.
\<close>

definition unicode_ascii_stable :: "unicodedata \<Rightarrow> bool" where
  "unicode_ascii_stable ud \<longleftrightarrow>
     (\<forall>s. set s \<subseteq> set all_letters \<longrightarrow> unicodedata_normalize ud ''NFD'' s = s) \<and>
     (\<forall>c \<in> set all_letters. unicodedata_category ud c \<noteq> ''Mn'')"

text \<open>
  A fragment of the Unicode tables, enough to run the notebook's own example
  \<open>unicodeToAscii("O'N\'e\`al")\<close>: the two precomposed letters U+00E9 and U+00E0 decompose
  into a base letter and a combining mark, and the combining diacritical marks
  U+0300..U+036F have category Mn.
\<close>

fun decompose :: "uchar \<Rightarrow> ustring" where
  "decompose c =
     (if c = 233 then [101, 769] else if c = 224 then [97, 768] else [c])"

definition accents_unicodedata :: unicodedata where
  "accents_unicodedata =
     \<lparr> unicodedata_normalize =
         (\<lambda>form s. if form = ''NFD'' then concat (map decompose s) else s),
       unicodedata_category = (\<lambda>c. if 768 \<le> c \<and> c \<le> 879 then ''Mn'' else ''Xx'') \<rparr>"

section \<open>Tensors for training\<close>

text \<open>\<open>all_categories\<close> is a global of the notebook, filled when the data is loaded.\<close>

definition categoryTensor :: "ustring list \<Rightarrow> ustring \<Rightarrow> error + mat" where
  "categoryTensor all_categories category =
     ebind (list_index all_categories category) (\<lambda>li.
       setitem2 (zeros2 1 (length all_categories)) 0 (int li) 1)"

fun inputTensor_loop :: "ustring \<Rightarrow> nat list \<Rightarrow> tensor3 \<Rightarrow> error + tensor3" where
  "inputTensor_loop line [] tensor = Inr tensor"
| "inputTensor_loop line (li # lis) tensor =
     ebind (getitem line (int li)) (\<lambda>letter.
       ebind (setitem3 tensor (int li) 0 (str_find all_letters letter) 1) (\<lambda>tensor'.
         inputTensor_loop line lis tensor'))"

definition inputTensor :: "ustring \<Rightarrow> error + tensor3" where
  "inputTensor line =
     inputTensor_loop line [0..<length line] (zeros3 (length line) 1 n_letters)"

definition targetTensor :: "ustring \<Rightarrow> int list" where
  "targetTensor line =
     map (\<lambda>li. str_find all_letters (line ! li)) [1..<length line] @ [int n_letters - 1]"

text \<open>The one-hot row of width \<open>n\<close> with its 1 at index \<open>k\<close>.\<close>

definition one_hot :: "nat \<Rightarrow> nat \<Rightarrow> vec" where
  "one_hot n k = map (\<lambda>j. if j = k then 1 else 0) [0..<n]"

text \<open>
  The slot of a row that the loop of \<open>inputTensor\<close> sets to 1 for a letter: \<open>find\<close> answers
  -1 for a character outside \<open>all_letters\<close>, and index -1 of a row is its last slot.
\<close>

definition letter_slot :: "uchar \<Rightarrow> nat" where
  "letter_slot c = (if c \<in> set all_letters then nat (str_find all_letters c) else n_letters - 1)"

section \<open>Loading the name files\<close>








fun split :: "'a list \<Rightarrow> 'a \<Rightarrow> 'a list list" where
  "split [] sep = [[]]"
| "split (c # s) sep =
     (if c = sep then [] # split s sep
      else (case split s sep of [] \<Rightarrow> [[c]] | w # ws \<Rightarrow> (c # w) # ws))"












section \<open>The network\<close>

text \<open>
  The tensor operations come from the torch library and are parameters of the model:
  the three layer kinds the module is built from, \<open>topk\<close>, the gradients that
  \<open>backward\<close> delivers, and the in-place \<open>add_\<close>. \<open>Linear\<close> takes the layer's weight and
  bias and a 2-D input, \<open>Dropout\<close> takes its probability and the state of the random number
  generator, which it advances, and \<open>autograd\<close> takes the parameter values and the calls
  recorded since the gradients were last reset. \<open>add_in_place x alpha y\<close> is the value that
  \<open>x.add_(alpha, y)\<close> leaves in \<open>x\<close>: the library's \<open>x + alpha * y\<close>, computed and rounded in
  the floating-point arithmetic of the tensors.
\<close>

datatype pname = I2H_weight | I2H_bias | I2O_weight | I2O_bias | O2O_weight | O2O_bias

datatype event =
    ZeroGrad
  | Forward mat mat mat mat mat
  | Criterion mat "int list" real
  | Backward real
  | AddScaled pname real

record 'g torch =
  Linear :: "vec \<Rightarrow> vec \<Rightarrow> mat \<Rightarrow> mat"
  Dropout :: "real \<Rightarrow> 'g \<Rightarrow> mat \<Rightarrow> mat \<times> 'g"
  LogSoftmax :: "mat \<Rightarrow> mat"
  topk :: "mat \<Rightarrow> nat \<Rightarrow> mat \<times> nat list list"
  autograd :: "(pname \<Rightarrow> vec) \<Rightarrow> event list \<Rightarrow> pname \<Rightarrow> vec"
  add_in_place :: "vec \<Rightarrow> real \<Rightarrow> vec \<Rightarrow> vec"

text \<open>
  The mutable state: the module \<open>rnn\<close> with the values and gradients of its parameters,
  the random number generator, and the sequence of calls made into the library so far
  (\<open>Forward category input hidden output hidden'\<close> for a call of the module,
  \<open>Criterion output target l\<close> for a loss term, \<open>Backward loss\<close>, and
  \<open>AddScaled p alpha\<close> for \<open>p.data.add_(alpha, p.grad.data)\<close>).
\<close>

record 'g rnn_state =
  hidden_size :: nat
  data :: "pname \<Rightarrow> vec"
  grad :: "pname \<Rightarrow> vec option"
  rng :: 'g
  calls :: "event list"

text \<open>\<open>rnn.parameters()\<close> yields the parameters in the order the layers were created.\<close>

definition parameters :: "pname list" where
  "parameters = [I2H_weight, I2H_bias, I2O_weight, I2O_bias, O2O_weight, O2O_bias]"

text \<open>\<open>torch.cat(tensors, 1)\<close> on 2-D tensors: the rows are joined, and the tensors must
  have the same number of rows.\<close>

definition cat1 :: "mat list \<Rightarrow> error + mat" where
  "cat1 ts =
     (if ts = [] \<or> (\<exists>t \<in> set ts. length t \<noteq> length (hd ts))
      then Inl (RuntimeError ''Sizes of tensors must match except in dimension 1'')
      else Inr (map (\<lambda>i. concat (map (\<lambda>t. t ! i) ts)) [0..<length (hd ts)]))"

definition forward ::
  "'g torch \<Rightarrow> 'g rnn_state \<Rightarrow> mat \<Rightarrow> mat \<Rightarrow> mat \<Rightarrow> error + ((mat \<times> mat) \<times> 'g rnn_state)" where
  "forward tc st category input hidden =
     ebind (cat1 [category, input, hidden]) (\<lambda>input_combined.
       let hidden' = Linear tc (data st I2H_weight) (data st I2H_bias) input_combined;
           output = Linear tc (data st I2O_weight) (data st I2O_bias) input_combined
       in ebind (cat1 [hidden', output]) (\<lambda>output_combined.
            let output = Linear tc (data st O2O_weight) (data st O2O_bias) output_combined;
                (output, g) = Dropout tc (1 / 10) (rng st) output;
                output = LogSoftmax tc output
            in Inr ((output, hidden'),
                 st\<lparr>rng := g,
                    calls := calls st @ [Forward category input hidden output hidden']\<rparr>)))"

definition initHidden :: "'g rnn_state \<Rightarrow> mat" where
  "initHidden st = zeros2 1 (hidden_size st)"

section \<open>Training\<close>

text \<open>
  \<open>nn.NLLLoss()\<close> on an \<open>N x C\<close> input and \<open>N\<close> targets: the mean of the negated entries
  that the targets select; a target outside \<open>0..C-1\<close> is rejected. (The default
  \<open>ignore_index\<close>, -100, is not modelled: \<open>find\<close> never answers it.)
\<close>

definition NLLLoss :: "mat \<Rightarrow> int list \<Rightarrow> error + real" where
  "NLLLoss input target =
     (if length input \<noteq> length target then Inl ValueError
      else if \<exists>(row, t) \<in> set (zip input target). t < 0 \<or> int (length row) \<le> t
      then Inl IndexError
      else Inr (sum_list (map (\<lambda>(row, t). - (row ! nat t)) (zip input target))
                 / real (length input)))"

definition criterion ::
  "mat \<Rightarrow> int list \<Rightarrow> 'g rnn_state \<Rightarrow> error + (real \<times> 'g rnn_state)" where
  "criterion output target st =
     ebind (NLLLoss output target) (\<lambda>l.
       Inr (l, st\<lparr>calls := calls st @ [Criterion output target l]\<rparr>))"

text \<open>The literal \<open>0.0005\<close>; what becomes of it in floating point is part of \<open>add_\<close>.\<close>

definition learning_rate :: real where
  "learning_rate = 5 / 10000"

text \<open>\<open>loss\<close> starts as the Python integer 0 and is a tensor after the first \<open>+=\<close>.\<close>

datatype loss = PyInt int | Tensor real

fun loss_add :: "loss \<Rightarrow> real \<Rightarrow> loss" where
  "loss_add (PyInt n) l = Tensor (real_of_int n + l)"
| "loss_add (Tensor a) l = Tensor (a + l)"

definition unsqueeze :: "int list \<Rightarrow> int list list" where
  "unsqueeze t = map (\<lambda>x. [x]) t"

definition zero_grad :: "'g rnn_state \<Rightarrow> 'g rnn_state" where
  "zero_grad st =
     st\<lparr>grad := (\<lambda>p. map_option (map (\<lambda>x. 0)) (grad st p)), calls := calls st @ [ZeroGrad]\<rparr>"

text \<open>
  \<open>loss.backward()\<close>: an integer has no such method; on a tensor, the gradient of the
  loss with respect to each parameter is added to that parameter's \<open>grad\<close>. The calls
  from index \<open>mark\<close> on are the ones the loss was computed by.
\<close>

definition backward :: "'g torch \<Rightarrow> nat \<Rightarrow> loss \<Rightarrow> 'g rnn_state \<Rightarrow> error + 'g rnn_state" where
  "backward tc mark loss st =
     (case loss of
        PyInt n \<Rightarrow> Inl AttributeError
      | Tensor v \<Rightarrow>
          (let g = autograd tc (data st) (drop mark (calls st))
           in Inr (st\<lparr>grad := (\<lambda>p. Some (case grad st p of
                                            None \<Rightarrow> g p
                                          | Some a \<Rightarrow> map2 (+) a (g p))),
                     calls := calls st @ [Backward v]\<rparr>)))"

fun train_loop ::
  "'g torch \<Rightarrow> mat \<Rightarrow> tensor3 \<Rightarrow> int list list \<Rightarrow> nat list \<Rightarrow>
   mat option \<times> mat \<times> loss \<Rightarrow> 'g rnn_state \<Rightarrow>
   error + ((mat option \<times> mat \<times> loss) \<times> 'g rnn_state)" where
  "train_loop tc category_tensor input_line_tensor target_line_tensor []
     (output, hidden, loss) st = Inr ((output, hidden, loss), st)"
| "train_loop tc category_tensor input_line_tensor target_line_tensor (i # is)
     (output, hidden, loss) st =
     ebind (getitem input_line_tensor (int i)) (\<lambda>x.
       ebind (forward tc st category_tensor x hidden) (\<lambda>((output', hidden'), st').
         ebind (getitem target_line_tensor (int i)) (\<lambda>t.
           ebind (criterion output' t st') (\<lambda>(l, st'').
             train_loop tc category_tensor input_line_tensor target_line_tensor is
               (Some output', hidden', loss_add loss l) st''))))"

text \<open>
  The loop \<open>for p in rnn.parameters(): p.data.add_(-learning_rate, p.grad.data)\<close>; a
  \<open>grad\<close> that is still \<open>None\<close> has no attribute \<open>data\<close>.
\<close>

fun update_loop :: "'g torch \<Rightarrow> pname list \<Rightarrow> 'g rnn_state \<Rightarrow> error + 'g rnn_state" where
  "update_loop tc [] st = Inr st"
| "update_loop tc (p # ps) st =
     (case grad st p of
        None \<Rightarrow> Inl AttributeError
      | Some g \<Rightarrow>
          update_loop tc ps
            (st\<lparr>data := (data st)(p := add_in_place tc (data st p) (- learning_rate) g),
                calls := calls st @ [AddScaled p (- learning_rate)]\<rparr>))"

definition train ::
  "'g torch \<Rightarrow> mat \<Rightarrow> tensor3 \<Rightarrow> int list \<Rightarrow> 'g rnn_state \<Rightarrow>
   error + ((mat \<times> real) \<times> 'g rnn_state)" where
  "train tc category_tensor input_line_tensor target_line_tensor st =
     (let target_line_tensor = unsqueeze target_line_tensor;
          hidden = initHidden st;
          mark = length (calls st);
          st = zero_grad st;
          loss = PyInt 0
      in ebind (train_loop tc category_tensor input_line_tensor target_line_tensor
                  [0..<length input_line_tensor] (None, hidden, loss) st)
           (\<lambda>((output, hidden, loss), st).
              ebind (backward tc mark loss st) (\<lambda>st.
                ebind (update_loop tc parameters st) (\<lambda>st.
                  case output of
                    None \<Rightarrow> Inl UnboundLocalError
                  | Some output \<Rightarrow>
                      (case loss of
                         PyInt n \<Rightarrow> Inl AttributeError
                       | Tensor v \<Rightarrow>
                           Inr ((output, v / real (length input_line_tensor)), st))))))"

section \<open>Sampling\<close>

definition max_length :: nat where
  "max_length = 20"

fun sample_loop ::
  "'g torch \<Rightarrow> mat \<Rightarrow> nat list \<Rightarrow> tensor3 \<times> mat \<times> ustring \<Rightarrow> 'g rnn_state \<Rightarrow>
   error + (ustring \<times> 'g rnn_state)" where
  "sample_loop tc category_tensor [] (input, hidden, output_name) st = Inr (output_name, st)"
| "sample_loop tc category_tensor (i # is) (input, hidden, output_name) st =
     ebind (getitem input 0) (\<lambda>x.
       ebind (forward tc st category_tensor x hidden) (\<lambda>((output, hidden'), st').
         let (topv, topi) = topk tc output 1
         in ebind (getitem topi 0) (\<lambda>row.
              ebind (getitem row 0) (\<lambda>topi.
                if topi = n_letters - 1 then Inr (output_name, st')
                else ebind (getitem all_letters (int topi)) (\<lambda>letter.
                       ebind (inputTensor [letter]) (\<lambda>input'.
                         sample_loop tc category_tensor is
                           (input', hidden', output_name @ [letter]) st'))))))"

definition sample ::
  "'g torch \<Rightarrow> ustring list \<Rightarrow> ustring \<Rightarrow> ustring \<Rightarrow> 'g rnn_state \<Rightarrow>
   error + (ustring \<times> 'g rnn_state)" where
  "sample tc all_categories category start_letter st =
     ebind (categoryTensor all_categories category) (\<lambda>category_tensor.
       ebind (inputTensor start_letter) (\<lambda>input.
         let hidden = initHidden st;
             output_name = start_letter
         in sample_loop tc category_tensor [0..<max_length] (input, hidden, output_name) st))"

section \<open>What the library guarantees\<close>

text \<open>
  The layers keep the number of rows; a \<open>Linear\<close> layer yields rows as wide as its bias,
  \<open>Dropout\<close> and \<open>LogSoftmax\<close> keep the width. \<open>topk(1)\<close> answers, for every row, one index
  of that row at which the row is greatest.
\<close>

definition highest :: "vec \<Rightarrow> nat \<Rightarrow> bool" where
  "highest row k \<longleftrightarrow> k < length row \<and> (\<forall>j < length row. row ! j \<le> row ! k)"

definition torch_shapes :: "'g torch \<Rightarrow> bool" where
  "torch_shapes tc \<longleftrightarrow>
     (\<forall>w b x. map length (Linear tc w b x) = map (\<lambda>r. length b) x) \<and>
     (\<forall>p g x. map length (fst (Dropout tc p g x)) = map length x) \<and>
     (\<forall>x. map length (LogSoftmax tc x) = map length x)"

definition topk_highest :: "'g torch \<Rightarrow> bool" where
  "topk_highest tc \<longleftrightarrow>
     (\<forall>x. [] \<notin> set x \<longrightarrow>
        length (snd (topk tc x 1)) = length x \<and>
        (\<forall>i < length x. \<exists>k. snd (topk tc x 1) ! i = [k] \<and> highest (x ! i) k))"

text \<open>The module as the notebook creates it, \<open>RNN(n_letters, 128, n_letters)\<close>: the output
  layer has \<open>n_letters\<close> outputs.\<close>

definition rnn_shaped :: "'g rnn_state \<Rightarrow> bool" where
  "rnn_shaped st \<longleftrightarrow>
     hidden_size st = 128 \<and> length (data st I2H_bias) = 128 \<and>
     length (data st I2O_bias) = n_letters \<and> length (data st O2O_bias) = n_letters"

section \<open>The sampling loop in words\<close>

text \<open>
  \<open>greedy tc category n c hidden st name st'\<close>: starting from the letter \<open>c\<close> and the
  hidden state \<open>hidden\<close>, at most \<open>n\<close> steps, each of which feeds the one-hot row of the
  current letter with the category and the hidden state to the network and takes an index
  of the highest output, stopping at the EOS index and otherwise appending the letter of
  that index and going on from it, produce the letters \<open>name\<close>.
\<close>

inductive greedy ::
  "'g torch \<Rightarrow> mat \<Rightarrow> nat \<Rightarrow> uchar \<Rightarrow> mat \<Rightarrow> 'g rnn_state \<Rightarrow> ustring \<Rightarrow> 'g rnn_state \<Rightarrow> bool"
  for tc :: "'g torch" and category :: mat where
  limit: "greedy tc category 0 c hidden st [] st"
| eos:
  "forward tc st category [one_hot n_letters (letter_slot c)] hidden = Inr (([output], hidden'), st')
   \<Longrightarrow> highest output (n_letters - 1)
   \<Longrightarrow> greedy tc category (Suc n) c hidden st [] st'"
| letter:
  "forward tc st category [one_hot n_letters (letter_slot c)] hidden = Inr (([output], hidden'), st')
   \<Longrightarrow> highest output k \<Longrightarrow> k \<noteq> n_letters - 1 \<Longrightarrow> k < length all_letters
   \<Longrightarrow> greedy tc category n (all_letters ! k) hidden' st' name st''
   \<Longrightarrow> greedy tc category (Suc n) c hidden st (all_letters ! k # name) st''"

text \<open>The hidden states of successive calls of the module are chained, from \<open>h\<close> on.\<close>

fun chained :: "mat \<Rightarrow> event list \<Rightarrow> bool" where
  "chained h [] = True"
| "chained h (Forward category input hidden output hidden' # es) =
     (hidden = h \<and> chained hidden' es)"
| "chained h (e # es) = chained h es"

fun is_Forward :: "event \<Rightarrow> bool" where
  "is_Forward (Forward category input hidden output hidden') = True"
| "is_Forward e = False"

section \<open>A small network to run\<close>

text \<open>
  An instance of the library for running the notebook's functions: a layer whose weight
  matrix has equal columns (\<open>w\<close> holds one column), so that an output is its bias plus its
  weight times the sum of the inputs; dropout that happens to keep every element, which it
  then scales by \<open>1 / (1 - p)\<close>; the logarithm of softmax; the first index of the greatest
  element; gradients that are 1 everywhere; and an \<open>add_\<close> that does not round.
\<close>

fun argmax :: "vec \<Rightarrow> nat" where
  "argmax [] = 0"
| "argmax [x] = 0"
| "argmax (x # y # ys) = (let k = argmax (y # ys) in if (y # ys) ! k \<le> x then 0 else Suc k)"

definition small_torch :: "nat torch" where
  "small_torch =
     \<lparr> Linear = (\<lambda>w b x. map (\<lambda>r. map (\<lambda>j. b ! j + w ! j * sum_list r) [0..<length b]) x),
       Dropout = (\<lambda>p g x. (map (map (\<lambda>v. v / (1 - p))) x, Suc g)),
       LogSoftmax = (\<lambda>x. map (\<lambda>r. map (\<lambda>v. v - ln (sum_list (map exp r))) r) x),
       topk = (\<lambda>x k. (map (\<lambda>r. [r ! argmax r]) x, map (\<lambda>r. [argmax r]) x)),
       autograd = (\<lambda>d tape p. map (\<lambda>x. 1) (d p)),
       add_in_place = (\<lambda>x alpha y. map2 (\<lambda>a b. a + alpha * b) x y) \<rparr>"

text \<open>
  A module that writes two letters: its hidden state counts the steps, and its output
  layer prefers the letter \<open>b\<close> until the count makes the EOS slot greater.
\<close>

definition small_rnn :: "nat rnn_state" where
  "small_rnn =
     \<lparr> hidden_size = 128,
       data = (\<lambda>p. case p of
           I2H_weight \<Rightarrow> one_hot 128 0
         | I2H_bias \<Rightarrow> (replicate 128 0)[0 := - 1]
         | I2O_weight \<Rightarrow> replicate n_letters 0
         | I2O_bias \<Rightarrow> replicate n_letters 0
         | O2O_weight \<Rightarrow> one_hot n_letters (n_letters - 1)
         | O2O_bias \<Rightarrow> (replicate n_letters 0)[1 := 5 / 2]),
       grad = (\<lambda>p. None),
       rng = 0,
       calls = [] \<rparr>"

text \<open>The rows of that module at a step where the hidden state it returns sums to \<open>v\<close>:
  the output of its last layer, the output after dropout and softmax, the hidden state.\<close>

definition small_raw :: "real \<Rightarrow> vec" where
  "small_raw v = map (\<lambda>j. if j = 1 then 5 / 2 else if j = 58 then v else 0) [0..<59]"

definition small_output :: "real \<Rightarrow> vec" where
  "small_output v =
     (let kept = map (\<lambda>u. u / (1 - 1 / 10)) (small_raw v)
      in map (\<lambda>u. u - ln (sum_list (map exp kept))) kept)"

definition small_hidden :: "real \<Rightarrow> vec" where
  "small_hidden v = v # replicate 127 0"

section \<open>Facts about the alphabet and about indexing\<close>

lemma all_letters_codes:
  "all_letters = [97..<123] @ [65..<91] @ [32, 46, 44, 59, 39, 45]"
  by (simp add: all_letters_def ascii_letters_def ascii_lowercase_def ascii_uppercase_def
      ustr_def upt_rec)

lemma length_all_letters: "length all_letters = 58"
  by (simp add: all_letters_codes)

lemma n_letters_eq: "n_letters = 59"
  by (simp add: n_letters_def length_all_letters)

lemma str_find_absent: "c \<notin> set xs \<Longrightarrow> str_find xs c = - 1"
  by (induction xs) (auto simp: Let_def)

lemma str_find_present:
  "c \<in> set xs \<Longrightarrow>
     0 \<le> str_find xs c \<and> str_find xs c < int (length xs) \<and> xs ! nat (str_find xs c) = c"
proof (induction xs)
  case Nil
  then show ?case by simp
next
  case (Cons x xs)
  show ?case
  proof (cases "x = c")
    case True
    then show ?thesis by simp
  next
    case False
    with Cons.prems have "c \<in> set xs" by simp
    from Cons.IH [OF this] False show ?thesis
      by (simp add: Let_def nat_add_distrib)
  qed
qed

lemma list_index_present:
  "x \<in> set xs \<Longrightarrow> \<exists>i. list_index xs x = Inr i \<and> i < length xs \<and> xs ! i = x \<and> x \<notin> set (take i xs)"
proof (induction xs)
  case Nil
  then show ?case by simp
next
  case (Cons y ys)
  show ?case
  proof (cases "y = x")
    case True
    then show ?thesis by simp
  next
    case False
    with Cons.prems have "x \<in> set ys" by simp
    from Cons.IH [OF this] obtain i
      where "list_index ys x = Inr i" "i < length ys" "ys ! i = x" "x \<notin> set (take i ys)"
      by blast
    with False show ?thesis by simp
  qed
qed

lemma py_index_nat: "i < n \<Longrightarrow> py_index n (int i) = Inr i"
  by (simp add: py_index_def)

lemma py_index_minus_one: "0 < n \<Longrightarrow> py_index n (- 1) = Inr (n - 1)"
  by (simp add: py_index_def nat_diff_distrib' Let_def)

lemma one_hot_update: "k < n \<Longrightarrow> (zeros1 n)[k := 1] = one_hot n k"
  by (rule nth_equalityI) (auto simp: zeros1_def one_hot_def)

lemma length_one_hot: "length (one_hot n k) = n"
  by (simp add: one_hot_def)

lemma nth_one_hot: "j < n \<Longrightarrow> one_hot n k ! j = (if j = k then 1 else 0)"
  by (simp add: one_hot_def)

lemma getitem_nat: "i < length xs \<Longrightarrow> getitem xs (int i) = Inr (xs ! i)"
  by (simp add: getitem_def py_index_nat)

lemma setitem_nat: "i < length xs \<Longrightarrow> setitem xs (int i) v = Inr (xs[i := v])"
  by (simp add: setitem_def py_index_nat)

lemma getitem_0: "xs \<noteq> [] \<Longrightarrow> getitem xs 0 = Inr (xs ! 0)"
  using getitem_nat [of 0 xs] by simp

lemma setitem_0: "xs \<noteq> [] \<Longrightarrow> setitem xs 0 v = Inr (xs[0 := v])"
  using setitem_nat [of 0 xs] by simp

lemma categoryTensor_index:
  assumes "list_index cs c = Inr li" "li < length cs"
  shows "categoryTensor cs c = Inr [one_hot (length cs) li]"
proof -
  have "setitem (zeros1 (length cs)) (int li) 1 = Inr (one_hot (length cs) li)"
    using assms(2) by (simp add: setitem_nat zeros1_def one_hot_update [unfolded zeros1_def])
  then show ?thesis
    using assms(1) by (simp add: categoryTensor_def setitem2_def zeros2_def getitem_0 setitem_0)
qed

lemma length_zeros1: "length (zeros1 n) = n"
  by (simp add: zeros1_def)

lemma letter_slot_lt: "letter_slot c < n_letters"
  using str_find_present [of c all_letters]
  by (auto simp: letter_slot_def n_letters_def)

lemma py_index_find: "py_index n_letters (str_find all_letters c) = Inr (letter_slot c)"
proof (cases "c \<in> set all_letters")
  case True
  from str_find_present [OF True] show ?thesis
    by (simp add: py_index_def letter_slot_def True n_letters_def)
next
  case False
  then show ?thesis
    using py_index_minus_one [of n_letters]
    by (simp add: str_find_absent letter_slot_def n_letters_def)
qed

lemma setitem3_row:
  assumes "li < length t" "t ! li = [row]" "length row = n_letters"
  shows "setitem3 t (int li) 0 (str_find all_letters c) 1 =
           Inr (t[li := [row[letter_slot c := 1]]])"
proof -
  have "setitem row (str_find all_letters c) 1 = Inr (row[letter_slot c := 1])"
    using assms(3) by (simp add: setitem_def py_index_find)
  then have "setitem2 [row] 0 (str_find all_letters c) 1 = Inr [row[letter_slot c := 1]]"
    by (simp add: setitem2_def getitem_0 setitem_0)
  then show ?thesis
    using assms(1,2) by (simp add: setitem3_def getitem_nat setitem_nat)
qed

lemma inputTensor_loop_range:
  assumes "length t = length line" "k \<le> length line"
    "\<forall>i < length line. k \<le> i \<longrightarrow> t ! i = [zeros1 n_letters]"
  shows "inputTensor_loop line [k..<length line] t =
           Inr (take k t @ map (\<lambda>i. [one_hot n_letters (letter_slot (line ! i))]) [k..<length line])"
  using assms
proof (induction "length line - k" arbitrary: k t)
  case 0
  then show ?case by simp
next
  case (Suc d)
  then have k: "k < length line" by simp
  let ?row = "[one_hot n_letters (letter_slot (line ! k))]"
  let ?t' = "t[k := ?row]"
  have step: "setitem3 t (int k) 0 (str_find all_letters (line ! k)) 1 = Inr ?t'"
    using setitem3_row [of k t "zeros1 n_letters" "line ! k"] Suc.prems k
    by (simp add: one_hot_update letter_slot_lt length_zeros1)
  have IH: "inputTensor_loop line [Suc k..<length line] ?t' =
        Inr (take (Suc k) ?t' @ map (\<lambda>i. [one_hot n_letters (letter_slot (line ! i))]) [Suc k..<length line])"
    using Suc.hyps(1) [of "Suc k" ?t'] Suc.hyps(2) Suc.prems k by simp
  have tk: "take (Suc k) ?t' = take k t @ [?row]"
    using k Suc.prems(1) by (simp add: take_Suc_conv_app_nth)
  show ?case
    using k step IH tk by (simp add: upt_conv_Cons getitem_nat)
qed

lemma inputTensor_rows:
  "inputTensor line = Inr (map (\<lambda>c. [one_hot n_letters (letter_slot c)]) line)"
proof -
  have "inputTensor line =
      Inr (map (\<lambda>i. [one_hot n_letters (letter_slot (line ! i))]) [0..<length line])"
    unfolding inputTensor_def
    using inputTensor_loop_range [of "zeros3 (length line) 1 n_letters" line 0]
    by (simp add: zeros3_def zeros2_def)
  also have "map (\<lambda>i. [one_hot n_letters (letter_slot (line ! i))]) [0..<length line] =
      map (\<lambda>c. [one_hot n_letters (letter_slot c)]) line"
    by (rule nth_equalityI) simp_all
  finally show ?thesis .
qed

lemma length_targetTensor: "line \<noteq> [] \<Longrightarrow> length (targetTensor line) = length line"
proof -
  assume "line \<noteq> []"
  moreover have "length (targetTensor line) = (length line - 1) + 1"
    by (simp add: targetTensor_def)
  ultimately show ?thesis by (cases line) simp_all
qed





lemma categoryTensor_Czech:
  "categoryTensor [ustr ''Irish'', ustr ''Czech''] (ustr ''Czech'') = Inr [[0, 1]]"
  by (simp add: categoryTensor_def setitem2_def getitem_0 setitem_0 zeros2_def zeros1_def
      setitem_def py_index_def ustr_def)

text \<open>
  Claim C5. For a category present in \<open>all_categories\<close>, \<open>categoryTensor\<close> returns a
  tensor of one row and \<open>n_categories\<close> columns that holds 1 at the (first) index of the
  category in \<open>all_categories\<close> and 0 at every other index.
\<close>

theorem categoryTensor_one_hot:
  assumes "category \<in> set all_categories"
  shows "\<exists>t li. categoryTensor all_categories category = Inr t \<and>
           length t = 1 \<and> length (t ! 0) = length all_categories \<and>
           li < length all_categories \<and> all_categories ! li = category \<and>
           category \<notin> set (take li all_categories) \<and>
           (\<forall>j < length all_categories. t ! 0 ! j = (if j = li then 1 else 0))"
proof -
  from list_index_present [OF assms] obtain li
    where li: "list_index all_categories category = Inr li" "li < length all_categories"
      "all_categories ! li = category" "category \<notin> set (take li all_categories)"
    by blast
  have "categoryTensor all_categories category = Inr [one_hot (length all_categories) li]"
    using li(1,2) by (rule categoryTensor_index)
  moreover have "\<forall>j < length all_categories.
      [one_hot (length all_categories) li] ! 0 ! j = (if j = li then 1 else 0)"
    by (simp add: nth_one_hot)
  ultimately show ?thesis
    using li(2,3,4) by (intro exI [of _ "[one_hot (length all_categories) li]"] exI [of _ li])
      (simp add: length_one_hot)
qed

theorem categoryTensor_one_hot_witness:
  "ustr ''German'' \<in> set [ustr ''Irish'', ustr ''German'', ustr ''Czech''] \<and>
   categoryTensor [ustr ''Irish'', ustr ''German'', ustr ''Czech''] (ustr ''German'')
     = Inr [[0, 1, 0]]"
proof -
  let ?cs = "[ustr ''Irish'', ustr ''German'', ustr ''Czech'']"
  have h: "ustr ''German'' \<in> set ?cs" by simp
  from categoryTensor_one_hot [OF h] obtain t li
    where t: "categoryTensor ?cs (ustr ''German'') = Inr t" "length t = 1"
      "length (t ! 0) = length ?cs" "li < length ?cs" "?cs ! li = ustr ''German''"
      "\<forall>j < length ?cs. t ! 0 ! j = (if j = li then 1 else 0)"
    by blast
  have ne: "ustr ''Irish'' \<noteq> ustr ''German''" "ustr ''Czech'' \<noteq> ustr ''German''"
    by (simp_all add: ustr_def)
  from t(4,5) ne have li: "li = 1"
    by (cases li; simp; cases "li - 1"; simp)
  from t(2) obtain r where r: "t = [r]"
    by (cases t) auto
  from t(3) r obtain a b c where abc: "r = [a, b, c]"
    by (cases r; simp; cases "tl r"; simp; cases "tl (tl r)"; simp)
  from t(6) li r abc have "a = 0" "b = 1" "c = 0"
    by (auto simp: all_set_conv_all_nth less_Suc_eq numeral_3_eq_3)
  with t(1) r abc h show ?thesis by simp
qed

text \<open>
  Claim C6, amended. For every line, \<open>inputTensor\<close> returns a tensor of shape
  \<open>len(line) x 1 x n_letters\<close> whose every row is one-hot; where the letter \<open>line[li]\<close>
  occurs in \<open>all_letters\<close>, the single 1 of row \<open>li\<close> is at the index of that letter in
  \<open>all_letters\<close>.
\<close>

theorem inputTensor_one_hot_rows:
  "\<exists>t. inputTensor line = Inr t \<and> length t = length line \<and>
     (\<forall>li < length line.
        \<exists>k < n_letters.
          length (t ! li) = 1 \<and> length (t ! li ! 0) = n_letters \<and>
          (\<forall>j < n_letters. t ! li ! 0 ! j = (if j = k then 1 else 0)) \<and>
          (line ! li \<in> set all_letters \<longrightarrow>
             k < length all_letters \<and> all_letters ! k = line ! li))"
proof -
  let ?t = "map (\<lambda>c. [one_hot n_letters (letter_slot c)]) line"
  have "\<exists>k < n_letters.
          length (?t ! li) = 1 \<and> length (?t ! li ! 0) = n_letters \<and>
          (\<forall>j < n_letters. ?t ! li ! 0 ! j = (if j = k then 1 else 0)) \<and>
          (line ! li \<in> set all_letters \<longrightarrow>
             k < length all_letters \<and> all_letters ! k = line ! li)"
    if "li < length line" for li
  proof (intro exI [of _ "letter_slot (line ! li)"] conjI)
    show "line ! li \<in> set all_letters \<longrightarrow>
       letter_slot (line ! li) < length all_letters \<and>
       all_letters ! letter_slot (line ! li) = line ! li"
      using str_find_present [of "line ! li" all_letters] by (auto simp: letter_slot_def)
  qed (use that in \<open>simp_all add: letter_slot_lt length_one_hot nth_one_hot\<close>)
  then show ?thesis
    by (simp add: inputTensor_rows)
qed

theorem inputTensor_one_hot_rows_witness:
  "inputTensor (ustr ''Ab'') = Inr [[one_hot 59 26], [one_hot 59 1]] \<and>
   all_letters ! 26 = of_char CHR ''A'' \<and> all_letters ! 1 = of_char CHR ''b''"
proof -
  from inputTensor_one_hot_rows [of "ustr ''Ab''"] obtain t
    where "inputTensor (ustr ''Ab'') = Inr t" by blast
  then show ?thesis
    by (simp add: inputTensor_rows ustr_def letter_slot_def all_letters_codes n_letters_eq
        upt_rec)
qed

text \<open>
  The claim C6 as stated, for every line, fails at the line \<open>"1"\<close>: the character is not in
  \<open>all_letters\<close>, and the 1 of its row is at index \<open>n_letters - 1\<close>, which is no index of
  \<open>all_letters\<close>.
\<close>

theorem inputTensor_outside_alphabet:
  "of_char CHR ''1'' \<notin> set all_letters \<and>
   inputTensor (ustr ''1'') = Inr [[one_hot n_letters (n_letters - 1)]] \<and>
   \<not> n_letters - 1 < length all_letters"
  by (simp add: inputTensor_rows ustr_def letter_slot_def all_letters_codes n_letters_def)

text \<open>
  Claim C2, amended. For every non-empty line, \<open>targetTensor\<close> returns \<open>len(line)\<close>
  elements, the last of them the EOS index \<open>n_letters - 1\<close>; element \<open>i\<close> before it is the
  index in \<open>all_letters\<close> of \<open>line[i + 1]\<close> whenever that letter occurs in \<open>all_letters\<close>.
\<close>

theorem targetTensor_indexes_eos:
  assumes "line \<noteq> []"
  shows "length (targetTensor line) = length line \<and>
         targetTensor line ! (length line - 1) = int n_letters - 1 \<and>
         (\<forall>i < length line - 1.
            line ! (i + 1) \<in> set all_letters \<longrightarrow>
              0 \<le> targetTensor line ! i \<and>
              targetTensor line ! i < int (length all_letters) \<and>
              all_letters ! nat (targetTensor line ! i) = line ! (i + 1))"
proof -
  have len: "length (targetTensor line) = length line"
    using assms by (rule length_targetTensor)
  have last: "targetTensor line ! (length line - 1) = int n_letters - 1"
    by (simp add: targetTensor_def nth_append)
  have nth: "targetTensor line ! i = str_find all_letters (line ! (i + 1))"
    if "i < length line - 1" for i
    using that by (simp add: targetTensor_def nth_append)
  show ?thesis
    using len last nth str_find_present [of _ all_letters] by auto
qed

theorem targetTensor_indexes_eos_witness:
  "ustr ''Ab'' \<noteq> [] \<and> targetTensor (ustr ''Ab'') = [1, 58] \<and>
   all_letters ! 1 = of_char CHR ''b''"
proof -
  have h: "ustr ''Ab'' \<noteq> []" by (simp add: ustr_def)
  from targetTensor_indexes_eos [OF h]
  have "length (targetTensor (ustr ''Ab'')) = length (ustr ''Ab'')" by blast
  then show ?thesis
    by (simp add: targetTensor_def ustr_def all_letters_codes n_letters_def upt_rec)
qed

text \<open>
  The claim C2 as stated, for every non-empty line, fails at the line \<open>"a1"\<close>: the first
  target is -1, which is not the index of any letter of \<open>all_letters\<close>.
\<close>

theorem targetTensor_outside_alphabet:
  "of_char CHR ''1'' \<notin> set all_letters \<and> targetTensor (ustr ''a1'') = [- 1, 58]"
  by (simp add: targetTensor_def ustr_def all_letters_codes n_letters_def upt_rec)

lemma all_letters_ascii: "c \<in> set all_letters \<Longrightarrow> c < 128"
  by (auto simp: all_letters_codes)

lemma accents_nfd_ascii:
  "set s \<subseteq> set all_letters \<Longrightarrow> concat (map decompose s) = s"
proof (induction s)
  case Nil
  then show ?case by simp
next
  case (Cons c s)
  then have "c < 128" by (simp add: all_letters_ascii)
  with Cons show ?case by simp
qed

lemma accents_stable: "unicode_ascii_stable accents_unicodedata"
  using all_letters_ascii
  by (fastforce simp: unicode_ascii_stable_def accents_unicodedata_def accents_nfd_ascii)

text \<open>
  Claim C10. Every character of \<open>unicodeToAscii(s)\<close> is a member of \<open>all_letters\<close>, and
  \<open>unicodeToAscii\<close> is idempotent. The second half rests on what \<open>unicodedata\<close> does on
  ASCII text, stated as \<open>unicode_ascii_stable\<close>.
\<close>

theorem unicodeToAscii_alphabet_idempotent:
  assumes "unicode_ascii_stable ud"
  shows "set (unicodeToAscii ud s) \<subseteq> set all_letters \<and>
         unicodeToAscii ud (unicodeToAscii ud s) = unicodeToAscii ud s"
proof -
  let ?r = "unicodeToAscii ud s"
  have sub: "set ?r \<subseteq> set all_letters"
    by (auto simp: unicodeToAscii_def)
  with assms have nfd: "unicodedata_normalize ud ''NFD'' ?r = ?r"
    by (simp add: unicode_ascii_stable_def)
  have "filter (\<lambda>c. unicodedata_category ud c \<noteq> ''Mn'' \<and> c \<in> set all_letters) ?r = ?r"
  proof (rule filter_True, rule ballI)
    fix c assume "c \<in> set ?r"
    with sub assms show "unicodedata_category ud c \<noteq> ''Mn'' \<and> c \<in> set all_letters"
      by (auto simp: unicode_ascii_stable_def)
  qed
  then have "unicodeToAscii ud ?r = ?r"
    unfolding unicodeToAscii_def [of ud ?r] nfd .
  with sub show ?thesis by simp
qed

theorem unicodeToAscii_alphabet_idempotent_witness:
  "unicode_ascii_stable accents_unicodedata \<and>
   unicodeToAscii accents_unicodedata (ustr ''O'N'' @ [233, 224] @ ustr ''l'') = ustr ''O'Neal'' \<and>
   unicodeToAscii accents_unicodedata (ustr ''O'Neal'') = ustr ''O'Neal''"
proof -
  have v: "unicodeToAscii accents_unicodedata (ustr ''O'N'' @ [233, 224] @ ustr ''l'')
      = ustr ''O'Neal''"
    by (simp add: unicodeToAscii_def accents_unicodedata_def ustr_def all_letters_codes upt_rec)
  from unicodeToAscii_alphabet_idempotent [OF accents_stable,
      of "ustr ''O'N'' @ [233, 224] @ ustr ''l''"]
  have "unicodeToAscii accents_unicodedata (ustr ''O'Neal'') = ustr ''O'Neal''"
    unfolding v by (rule conjunct2)
  with v accents_stable show ?thesis by (intro conjI)
qed


















section \<open>Calls of the module\<close>

lemma ebind_Inr: "ebind m f = Inr r \<longleftrightarrow> (\<exists>v. m = Inr v \<and> f v = Inr r)"
  by (cases m) simp_all

lemma cat1_rows: "cat1 [[a], [b], [c]] = Inr [a @ b @ c]" "cat1 [[a], [b]] = Inr [a @ b]"
  by (simp_all add: cat1_def)

lemma forward_Inr:
  assumes "forward tc st category input hidden = Inr ((output, hidden'), st')"
  shows "\<exists>input_combined.
           cat1 [category, input, hidden] = Inr input_combined \<and>
           hidden' = Linear tc (data st I2H_weight) (data st I2H_bias) input_combined"
    and "st' = st\<lparr>rng := rng st',
                  calls := calls st @ [Forward category input hidden output hidden']\<rparr>"
proof -
  from assms obtain input_combined
    where c1: "cat1 [category, input, hidden] = Inr input_combined"
      and r1: "(let hidden' = Linear tc (data st I2H_weight) (data st I2H_bias) input_combined;
           output = Linear tc (data st I2O_weight) (data st I2O_bias) input_combined
       in ebind (cat1 [hidden', output]) (\<lambda>output_combined.
            let output = Linear tc (data st O2O_weight) (data st O2O_bias) output_combined;
                (output, g) = Dropout tc (1 / 10) (rng st) output;
                output = LogSoftmax tc output
            in Inr ((output, hidden'),
                 st\<lparr>rng := g,
                    calls := calls st @ [Forward category input hidden output hidden']\<rparr>)))
        = Inr ((output, hidden'), st')"
    unfolding forward_def ebind_Inr by blast
  let ?h = "Linear tc (data st I2H_weight) (data st I2H_bias) input_combined"
  from r1 obtain output_combined
    where r2: "(let output = Linear tc (data st O2O_weight) (data st O2O_bias) output_combined;
                (output, g) = Dropout tc (1 / 10) (rng st) output;
                output = LogSoftmax tc output
            in Inr ((output, ?h),
                 st\<lparr>rng := g,
                    calls := calls st @ [Forward category input hidden output ?h]\<rparr>))
        = (Inr ((output, hidden'), st') :: error + ((mat \<times> mat) \<times> 'a rnn_state))"
    unfolding Let_def ebind_Inr by blast
  obtain d g where d: "Dropout tc (1 / 10) (rng st)
      (Linear tc (data st O2O_weight) (data st O2O_bias) output_combined) = (d, g)"
    by (cases "Dropout tc (1 / 10) (rng st)
      (Linear tc (data st O2O_weight) (data st O2O_bias) output_combined)")
  from r2 d have h: "hidden' = ?h"
    and st': "st' = st\<lparr>rng := g,
          calls := calls st @ [Forward category input hidden output hidden']\<rparr>"
    by (clarsimp simp: Let_def)+
  from c1 h show "\<exists>input_combined.
      cat1 [category, input, hidden] = Inr input_combined \<and>
      hidden' = Linear tc (data st I2H_weight) (data st I2H_bias) input_combined"
    by blast
  from st' show "st' = st\<lparr>rng := rng st',
      calls := calls st @ [Forward category input hidden output hidden']\<rparr>"
    by simp
qed

lemma forward_rows:
  assumes "torch_shapes tc"
  shows "\<exists>output hidden' g.
           forward tc st [c] [x] [h] =
             Inr (([output], [hidden']),
               st\<lparr>rng := g, calls := calls st @ [Forward [c] [x] [h] [output] [hidden']]\<rparr>) \<and>
           length output = length (data st O2O_bias)"
proof -
  let ?comb = "[c @ x @ h]"
  let ?h = "Linear tc (data st I2H_weight) (data st I2H_bias) ?comb"
  let ?o = "Linear tc (data st I2O_weight) (data st I2O_bias) ?comb"
  from assms have lin: "map length (Linear tc w b y) = map (\<lambda>r. length b) y" for w b y
    by (simp add: torch_shapes_def)
  from lin [of "data st I2H_weight" "data st I2H_bias" ?comb] obtain h' where h': "?h = [h']"
    by (cases ?h) auto
  from lin [of "data st I2O_weight" "data st I2O_bias" ?comb] obtain o1 where o1: "?o = [o1]"
    by (cases ?o) auto
  let ?o2 = "Linear tc (data st O2O_weight) (data st O2O_bias) [h' @ o1]"
  from lin [of "data st O2O_weight" "data st O2O_bias" "[h' @ o1]"]
  obtain o2 where o2: "?o2 = [o2]" "length o2 = length (data st O2O_bias)"
    by (cases ?o2) auto
  obtain d g where d: "Dropout tc (1 / 10) (rng st) [o2] = (d, g)"
    by (cases "Dropout tc (1 / 10) (rng st) [o2]")
  from assms have "map length (fst (Dropout tc (1 / 10) (rng st) [o2])) = map length [o2]"
    unfolding torch_shapes_def by blast
  with d obtain o3 where o3: "d = [o3]" "length o3 = length o2"
    by (cases d) auto
  from assms have "map length (LogSoftmax tc [o3]) = map length [o3]"
    unfolding torch_shapes_def by blast
  then obtain o4 where o4: "LogSoftmax tc [o3] = [o4]" "length o4 = length o3"
    by (cases "LogSoftmax tc [o3]") auto
  have "forward tc st [c] [x] [h] =
      Inr (([o4], [h']), st\<lparr>rng := g, calls := calls st @ [Forward [c] [x] [h] [o4] [h']]\<rparr>)"
    by (simp add: forward_def cat1_rows h' o1 o2 d o3 o4 Let_def)
  with o2(2) o3(2) o4(2) show ?thesis by auto
qed

section \<open>The sampling loop\<close>

lemma inputTensor_letter:
  "inputTensor [c] = Inr [[one_hot n_letters (letter_slot c)]]"
  by (simp add: inputTensor_rows)

lemma topk_row:
  assumes "topk_highest tc" "row \<noteq> []"
  shows "\<exists>topv k. topk tc [row] 1 = (topv, [[k]]) \<and> highest row k"
proof -
  from assms have "length (snd (topk tc [row] 1)) = 1"
    and "\<exists>k. snd (topk tc [row] 1) ! 0 = [k] \<and> highest row k"
    unfolding topk_highest_def by force+
  then obtain k where "snd (topk tc [row] 1) = [[k]]" "highest row k"
    by (cases "snd (topk tc [row] 1)") auto
  then show ?thesis
    by (cases "topk tc [row] 1") auto
qed

lemma sample_loop_run:
  assumes "torch_shapes tc" "topk_highest tc" "length (data st O2O_bias) = n_letters"
  shows "\<exists>name st' evs.
           sample_loop tc [c] is ([[one_hot n_letters (letter_slot a)]], [h], output_name) st
             = Inr (output_name @ name, st') \<and>
           greedy tc [c] (length is) a [h] st name st' \<and>
           calls st' = calls st @ evs \<and> chained [h] evs \<and> list_all is_Forward evs \<and>
           length name < length evs + (if length evs = length is then 1 else 0) \<and>
           length evs \<le> length is \<and>
           data st' = data st \<and> hidden_size st' = hidden_size st"
  using assms(3)
proof (induction "is" arbitrary: a h output_name st)
  case Nil
  show ?case
    by (simp add: greedy.limit)
next
  case (Cons i "is")
  let ?x = "[one_hot n_letters (letter_slot a)]"
  from forward_rows [OF assms(1), of st c "one_hot n_letters (letter_slot a)" h]
  obtain out hidden' g
    where fw: "forward tc st [c] ?x [h] =
        Inr (([out], [hidden']),
          st\<lparr>rng := g, calls := calls st @ [Forward [c] ?x [h] [out] [hidden']]\<rparr>)"
      and len: "length out = length (data st O2O_bias)"
    by blast
  let ?st1 = "st\<lparr>rng := g, calls := calls st @ [Forward [c] ?x [h] [out] [hidden']]\<rparr>"
  from len Cons.prems have out: "length out = n_letters" by simp
  then have "out \<noteq> []" by (auto simp: n_letters_def)
  from topk_row [OF assms(2) this] obtain topv k
    where tk: "topk tc [out] 1 = (topv, [[k]])" and hi: "highest out k"
    by blast
  from hi out have k: "k < n_letters" by (simp add: highest_def)
  show ?case
  proof (cases "k = n_letters - 1")
    case True
    have "sample_loop tc [c] (i # is) ([?x], [h], output_name) st = Inr (output_name @ [], ?st1)"
      using True tk by (simp add: getitem_0 fw)
    moreover have "greedy tc [c] (length (i # is)) a [h] st [] ?st1"
      using greedy.eos [OF fw] hi True by simp
    ultimately show ?thesis
      by (intro exI [of _ "[]"] exI [of _ ?st1]
          exI [of _ "[Forward [c] ?x [h] [out] [hidden']]"]) simp
  next
    case False
    with k have kl: "k < length all_letters" by (simp add: n_letters_def)
    let ?letter = "all_letters ! k"
    have "data ?st1 O2O_bias = data st O2O_bias" by simp
    with Cons.prems have "length (data ?st1 O2O_bias) = n_letters" by simp
    from Cons.IH [OF this, of ?letter hidden' "output_name @ [?letter]"]
    obtain name st' evs
      where run: "sample_loop tc [c] is
          ([[one_hot n_letters (letter_slot ?letter)]], [hidden'], output_name @ [?letter]) ?st1
            = Inr ((output_name @ [?letter]) @ name, st')"
        and gr: "greedy tc [c] (length is) ?letter [hidden'] ?st1 name st'"
        and rest: "calls st' = calls ?st1 @ evs" "chained [hidden'] evs" "list_all is_Forward evs"
          "length name < length evs + (if length evs = length is then 1 else 0)"
          "length evs \<le> length is" "data st' = data ?st1" "hidden_size st' = hidden_size ?st1"
      by blast
    have "sample_loop tc [c] (i # is) ([?x], [h], output_name) st
        = Inr (output_name @ (?letter # name), st')"
      using False kl run tk by (simp add: getitem_0 fw getitem_nat inputTensor_letter)
    moreover have "greedy tc [c] (length (i # is)) a [h] st (?letter # name) st'"
      using greedy.letter [OF fw hi False kl gr] by simp
    ultimately show ?thesis
      using rest
      by (intro exI [of _ "?letter # name"] exI [of _ st']
          exI [of _ "Forward [c] ?x [h] [out] [hidden'] # evs"]) (auto split: if_splits)
  qed
qed

section \<open>Sampling\<close>

lemma small_torch_shapes: "torch_shapes small_torch"
  by (simp add: torch_shapes_def small_torch_def)

lemma argmax_highest: "row \<noteq> [] \<Longrightarrow> highest row (argmax row)"
proof (induction row rule: argmax.induct)
  case 1
  then show ?case by simp
next
  case (2 x)
  then show ?case by (simp add: highest_def)
next
  case (3 x y ys)
  then have IH: "highest (y # ys) (argmax (y # ys))" by simp
  show ?case
  proof (cases "(y # ys) ! argmax (y # ys) \<le> x")
    case True
    have "(x # y # ys) ! j \<le> x" if "j < length (x # y # ys)" for j
    proof (cases j)
      case 0
      then show ?thesis by simp
    next
      case (Suc j')
      with that IH have "(y # ys) ! j' \<le> (y # ys) ! argmax (y # ys)"
        by (simp add: highest_def)
      with True Suc show ?thesis by simp
    qed
    with True show ?thesis by (simp add: highest_def Let_def)
  next
    case False
    have "(x # y # ys) ! j \<le> (y # ys) ! argmax (y # ys)" if "j < length (x # y # ys)" for j
    proof (cases j)
      case 0
      with False show ?thesis by simp
    next
      case (Suc j')
      with that IH show ?thesis by (simp add: highest_def)
    qed
    with False IH show ?thesis by (simp add: highest_def Let_def)
  qed
qed

lemma small_torch_topk: "topk_highest small_torch"
  unfolding topk_highest_def
proof (intro allI impI conjI)
  fix x :: mat and i
  assume x: "[] \<notin> set x" and i: "i < length x"
  then have "x ! i \<noteq> []" by (metis nth_mem)
  then have "highest (x ! i) (argmax (x ! i))" by (rule argmax_highest)
  with i show "\<exists>k. snd (topk small_torch x 1) ! i = [k] \<and> highest (x ! i) k"
    by (simp add: small_torch_def)
qed (simp add: small_torch_def)

lemma small_rnn_shaped: "rnn_shaped small_rnn"
  by (simp add: rnn_shaped_def small_rnn_def length_one_hot)

lemma sample_run:
  assumes "torch_shapes tc" "topk_highest tc" "rnn_shaped st"
    and "category \<in> set all_categories" and "length start_letter = 1"
  shows "\<exists>category_tensor name st' evs.
           categoryTensor all_categories category = Inr category_tensor \<and>
           sample tc all_categories category start_letter st = Inr (start_letter @ name, st') \<and>
           greedy tc category_tensor max_length (hd start_letter) (initHidden st) st name st' \<and>
           calls st' = calls st @ evs \<and> chained (initHidden st) evs \<and>
           list_all is_Forward evs \<and> length name \<le> length evs \<and> length evs \<le> max_length"
proof -
  from list_index_present [OF assms(4)] obtain li
    where li: "list_index all_categories category = Inr li" "li < length all_categories"
    by blast
  let ?c = "one_hot (length all_categories) li"
  have ct: "categoryTensor all_categories category = Inr [?c]"
    using li by (rule categoryTensor_index)
  from assms(5) obtain a where a: "start_letter = [a]"
    by (cases start_letter) auto
  let ?h = "zeros1 (hidden_size st)"
  from assms(3) have "length (data st O2O_bias) = n_letters"
    by (simp add: rnn_shaped_def)
  from sample_loop_run [OF assms(1,2) this, of ?c "[0..<max_length]" a ?h start_letter]
  obtain name st' evs
    where "sample_loop tc [?c] [0..<max_length]
        ([[one_hot n_letters (letter_slot a)]], [?h], start_letter) st
          = Inr (start_letter @ name, st')"
      "greedy tc [?c] (length [0..<max_length]) a [?h] st name st'"
      "calls st' = calls st @ evs" "chained [?h] evs" "list_all is_Forward evs"
      "length name < length evs + (if length evs = length [0..<max_length] then 1 else 0)"
      "length evs \<le> length [0..<max_length]"
    by blast
  then show ?thesis
    using ct a
    by (intro exI [of _ "[?c]"] exI [of _ name] exI [of _ st'] exI [of _ evs])
      (auto simp: sample_def inputTensor_letter initHidden_def zeros2_def split: if_splits)
qed

text \<open>
  Claim C1. For a category of \<open>all_categories\<close> and a start letter of one character,
  \<open>sample\<close> returns the start letter followed by the letters of the greedy run: at most
  \<open>max_length\<close> steps, each feeding the one-hot row of the current letter with the category
  tensor and the hidden state to the network and taking an index of the highest output,
  stopping without appending at the EOS index \<open>n_letters - 1\<close> and otherwise appending the
  letter of that index and going on from it.
\<close>

theorem sample_greedy:
  assumes "torch_shapes tc" "topk_highest tc" "rnn_shaped st"
    and "category \<in> set all_categories" and "length start_letter = 1"
  shows "\<exists>category_tensor name st'.
           categoryTensor all_categories category = Inr category_tensor \<and>
           sample tc all_categories category start_letter st = Inr (start_letter @ name, st') \<and>
           greedy tc category_tensor max_length (hd start_letter) (initHidden st) st name st'"
  using sample_run [OF assms] by blast

text \<open>
  Claim C8. For a category of \<open>all_categories\<close> and a start letter of one character,
  \<open>sample\<close> returns after at most \<open>max_length = 20\<close> iterations of its loop, each of which
  calls the module once, and the string it returns begins with the start letter and has
  between 1 and 21 characters.
\<close>

theorem sample_terminates:
  assumes "torch_shapes tc" "topk_highest tc" "rnn_shaped st"
    and "category \<in> set all_categories" and "length start_letter = 1"
  shows "\<exists>name st' evs.
           sample tc all_categories category start_letter st = Inr (name, st') \<and>
           calls st' = calls st @ evs \<and> list_all is_Forward evs \<and>
           length evs \<le> max_length \<and> max_length = 20 \<and>
           take 1 name = start_letter \<and> 1 \<le> length name \<and> length name \<le> 21"
proof -
  from sample_run [OF assms] obtain name st' evs
    where "sample tc all_categories category start_letter st = Inr (start_letter @ name, st')"
      "calls st' = calls st @ evs" "list_all is_Forward evs"
      "length name \<le> length evs" "length evs \<le> max_length"
    by blast
  then show ?thesis
    using assms(5)
    by (intro exI [of _ "start_letter @ name"] exI [of _ st'] exI [of _ evs])
      (simp add: max_length_def)
qed

section \<open>The training step\<close>

lemma getitem_int_Inr: "getitem xs (int i) = Inr v \<Longrightarrow> i < length xs \<and> v = xs ! i"
  by (auto simp: getitem_def py_index_def Let_def split: if_splits)

lemma criterion_Inr:
  assumes "criterion out t st = Inr (l, st')"
  shows "NLLLoss out t = Inr l" "st' = st\<lparr>calls := calls st @ [Criterion out t l]\<rparr>"
  using assms by (auto simp: criterion_def ebind_Inr)

lemma train_loop_Inr:
  assumes "train_loop tc ct inp tgt is (o1, h, l) st = Inr ((o', h', l'), st')"
  shows "\<exists>hs outs ls.
     length hs = length is \<and> length outs = length is \<and> length ls = length is \<and>
     calls st' = calls st @
       concat (map (\<lambda>j. [Forward ct (inp ! (is ! j)) ((h # hs) ! j) (outs ! j) (hs ! j),
                         Criterion (outs ! j) (tgt ! (is ! j)) (ls ! j)]) [0..<length is]) \<and>
     chained h
       (concat (map (\<lambda>j. [Forward ct (inp ! (is ! j)) ((h # hs) ! j) (outs ! j) (hs ! j),
                         Criterion (outs ! j) (tgt ! (is ! j)) (ls ! j)]) [0..<length is])) \<and>
     (\<forall>j < length is. is ! j < length inp \<and> is ! j < length tgt \<and>
        NLLLoss (outs ! j) (tgt ! (is ! j)) = Inr (ls ! j)) \<and>
     l' = foldl loss_add l ls \<and> h' = last (h # hs) \<and>
     o' = (if is = [] then o1 else Some (last outs)) \<and>
     data st' = data st \<and> grad st' = grad st \<and> hidden_size st' = hidden_size st"
  using assms
proof (induction "is" arbitrary: o1 h l st)
  case Nil
  then show ?case by simp
next
  case (Cons i "is")
  from Cons.prems obtain x r1 t r2
    where x: "getitem inp (int i) = Inr x"
      and fw: "forward tc st ct x h = Inr r1"
      and t: "getitem tgt (int i) = Inr t"
      and cr: "criterion (fst (fst r1)) t (snd r1) = Inr r2"
      and rest: "train_loop tc ct inp tgt is
          (Some (fst (fst r1)), snd (fst r1), loss_add l (fst r2)) (snd r2) = Inr ((o', h', l'), st')"
    by (auto simp: ebind_Inr split: prod.splits)
  obtain out1 h1 st1 where r1: "r1 = ((out1, h1), st1)"
    by (metis surj_pair)
  obtain l1 st2 where r2: "r2 = (l1, st2)"
    by (cases r2)
  from getitem_int_Inr [OF x] have xi: "i < length inp" "x = inp ! i" by simp_all
  from getitem_int_Inr [OF t] have ti: "i < length tgt" "t = tgt ! i" by simp_all
  from forward_Inr(2) [OF fw [unfolded r1]]
  have st1: "st1 = st\<lparr>rng := rng st1, calls := calls st @ [Forward ct x h out1 h1]\<rparr>" .
  from criterion_Inr [OF cr [unfolded r1 r2 fst_conv snd_conv]]
  have nll: "NLLLoss out1 t = Inr l1"
    and st2: "st2 = st1\<lparr>calls := calls st1 @ [Criterion out1 t l1]\<rparr>"
    by simp_all
  from Cons.IH [OF rest [unfolded r1 r2 fst_conv snd_conv]] obtain hs outs ls
    where len: "length hs = length is" "length outs = length is" "length ls = length is"
      and calls: "calls st' = calls st2 @
          concat (map (\<lambda>j. [Forward ct (inp ! (is ! j)) ((h1 # hs) ! j) (outs ! j) (hs ! j),
                         Criterion (outs ! j) (tgt ! (is ! j)) (ls ! j)]) [0..<length is])"
      and ch: "chained h1
          (concat (map (\<lambda>j. [Forward ct (inp ! (is ! j)) ((h1 # hs) ! j) (outs ! j) (hs ! j),
                         Criterion (outs ! j) (tgt ! (is ! j)) (ls ! j)]) [0..<length is]))"
      and each: "\<forall>j < length is. is ! j < length inp \<and> is ! j < length tgt \<and>
          NLLLoss (outs ! j) (tgt ! (is ! j)) = Inr (ls ! j)"
      and fin: "l' = foldl loss_add (loss_add l l1) ls" "h' = last (h1 # hs)"
        "o' = (if is = [] then Some out1 else Some (last outs))"
      and same: "data st' = data st2" "grad st' = grad st2" "hidden_size st' = hidden_size st2"
    by blast
  have c2: "calls st2 = calls st @ [Forward ct (inp ! i) h out1 h1, Criterion out1 (tgt ! i) l1]"
    by (subst st2, subst st1) (simp add: xi ti)
  have same2: "data st2 = data st" "grad st2 = grad st" "hidden_size st2 = hidden_size st"
    by (subst st2, subst st1, simp)+
  have each': "\<forall>j < length (i # is). (i # is) ! j < length inp \<and> (i # is) ! j < length tgt \<and>
      NLLLoss ((out1 # outs) ! j) (tgt ! ((i # is) ! j)) = Inr ((l1 # ls) ! j)"
    using each nll xi ti by (auto simp: nth_Cons split: nat.splits)
  show ?case
  proof (rule exI [of _ "h1 # hs"], rule exI [of _ "out1 # outs"], rule exI [of _ "l1 # ls"],
      intro conjI)
    show "calls st' = calls st @
       concat (map (\<lambda>j. [Forward ct (inp ! ((i # is) ! j)) ((h # h1 # hs) ! j)
                           ((out1 # outs) ! j) ((h1 # hs) ! j),
                         Criterion ((out1 # outs) ! j) (tgt ! ((i # is) ! j)) ((l1 # ls) ! j)])
                 [0..<length (i # is)])"
      using calls c2 by (simp add: map_upt_Suc del: upt_Suc)
    show "chained h
       (concat (map (\<lambda>j. [Forward ct (inp ! ((i # is) ! j)) ((h # h1 # hs) ! j)
                           ((out1 # outs) ! j) ((h1 # hs) ! j),
                         Criterion ((out1 # outs) ! j) (tgt ! ((i # is) ! j)) ((l1 # ls) ! j)])
                 [0..<length (i # is)]))"
      using ch by (simp add: map_upt_Suc del: upt_Suc)
    show "o' = (if i # is = [] then o1 else Some (last (out1 # outs)))"
      using fin(3) len by auto
  qed (use len each' fin same same2 in simp_all)
qed

lemma foldl_loss_Tensor: "foldl loss_add (Tensor a) ls = Tensor (a + sum_list ls)"
  by (induction ls arbitrary: a) (simp_all add: add.assoc)

lemma foldl_loss_PyInt:
  "foldl loss_add (PyInt n) ls = (if ls = [] then PyInt n else Tensor (real_of_int n + sum_list ls))"
  by (cases ls) (simp_all add: foldl_loss_Tensor add.assoc)

lemma update_loop_Inr:
  assumes "update_loop tc ps st = Inr st'" "distinct ps"
  shows "(\<forall>p \<in> set ps. \<exists>g. grad st p = Some g \<and>
            data st' p = add_in_place tc (data st p) (- learning_rate) g) \<and>
         (\<forall>p. p \<notin> set ps \<longrightarrow> data st' p = data st p) \<and>
         grad st' = grad st \<and> hidden_size st' = hidden_size st \<and>
         calls st' = calls st @ map (\<lambda>p. AddScaled p (- learning_rate)) ps"
  using assms
proof (induction ps arbitrary: st)
  case Nil
  then show ?case by simp
next
  case (Cons p ps)
  from Cons.prems(1) obtain g where g: "grad st p = Some g"
    by (cases "grad st p") simp_all
  let ?st = "st\<lparr>data := (data st)(p := add_in_place tc (data st p) (- learning_rate) g),
                calls := calls st @ [AddScaled p (- learning_rate)]\<rparr>"
  from Cons.prems(1) g have "update_loop tc ps ?st = Inr st'" by simp
  from Cons.IH [OF this] Cons.prems(2)
  have IH: "\<forall>q \<in> set ps. \<exists>g. grad ?st q = Some g \<and>
            data st' q = add_in_place tc (data ?st q) (- learning_rate) g"
    "\<forall>q. q \<notin> set ps \<longrightarrow> data st' q = data ?st q"
    "grad st' = grad ?st" "hidden_size st' = hidden_size ?st"
    "calls st' = calls ?st @ map (\<lambda>p. AddScaled p (- learning_rate)) ps"
    by simp_all
  from Cons.prems(2) have p: "p \<notin> set ps" by simp
  have "\<forall>q \<in> set (p # ps). \<exists>g. grad st q = Some g \<and>
            data st' q = add_in_place tc (data st q) (- learning_rate) g"
  proof
    fix q assume "q \<in> set (p # ps)"
    then consider "q = p" | "q \<in> set ps" "q \<noteq> p" using p by auto
    then show "\<exists>g. grad st q = Some g \<and> data st' q = add_in_place tc (data st q) (- learning_rate) g"
    proof cases
      case 1
      with IH(2) p g show ?thesis by simp
    next
      case 2
      with IH(1) show ?thesis by fastforce
    qed
  qed
  moreover have "\<forall>q. q \<notin> set (p # ps) \<longrightarrow> data st' q = data st q"
    using IH(2) by simp
  ultimately show ?case
    using IH(3-5) by simp
qed

lemma update_loop_ok:
  "\<forall>p \<in> set ps. grad st p \<noteq> None \<Longrightarrow> \<exists>st'. update_loop tc ps st = Inr st'"
proof (induction ps arbitrary: st)
  case Nil
  then show ?case by simp
next
  case (Cons p ps)
  then obtain g where g: "grad st p = Some g" by auto
  let ?st = "st\<lparr>data := (data st)(p := add_in_place tc (data st p) (- learning_rate) g),
                calls := calls st @ [AddScaled p (- learning_rate)]\<rparr>"
  from Cons.prems have "\<forall>q \<in> set ps. grad ?st q \<noteq> None" by simp
  from Cons.IH [OF this] g show ?case by simp
qed

lemma parameters_all: "p \<in> set parameters" "distinct parameters"
  by (cases p) (simp_all add: parameters_def)

lemma backward_Inr:
  assumes "backward tc mark l st = Inr st'"
  shows "\<exists>v. l = Tensor v \<and> calls st' = calls st @ [Backward v]"
    and "\<forall>p. grad st' p \<noteq> None" and "data st' = data st" and "hidden_size st' = hidden_size st"
  using assms by (cases l; auto simp: backward_def Let_def)+

lemma backward_grad:
  assumes "backward tc mark l st = Inr st'"
  shows "grad st' p = Some (case grad st p of
             None \<Rightarrow> autograd tc (data st) (drop mark (calls st)) p
           | Some a \<Rightarrow> map2 (+) a (autograd tc (data st) (drop mark (calls st)) p))"
  using assms by (cases l) (auto simp: backward_def Let_def)

lemma nth_unsqueeze: "i < length t \<Longrightarrow> unsqueeze t ! i = [t ! i]"
  by (simp add: unsqueeze_def)

lemma train_Inr:
  assumes "train tc ct inp tgt st = Inr ((out, lossv), st')"
  shows "\<exists>hs outs ls.
     length hs = length inp \<and> length outs = length inp \<and> length ls = length inp \<and>
     inp \<noteq> [] \<and>
     calls st' = calls st @ ZeroGrad #
       concat (map (\<lambda>i. [Forward ct (inp ! i) ((initHidden st # hs) ! i) (outs ! i) (hs ! i),
                         Criterion (outs ! i) [tgt ! i] (ls ! i)]) [0..<length inp]) @
       Backward (sum_list ls) # map (\<lambda>p. AddScaled p (- learning_rate)) parameters \<and>
     chained (initHidden st)
       (concat (map (\<lambda>i. [Forward ct (inp ! i) ((initHidden st # hs) ! i) (outs ! i) (hs ! i),
                         Criterion (outs ! i) [tgt ! i] (ls ! i)]) [0..<length inp])) \<and>
     (\<forall>i < length inp. i < length tgt \<and> NLLLoss (outs ! i) [tgt ! i] = Inr (ls ! i)) \<and>
     out = last outs \<and> lossv = sum_list ls / real (length inp) \<and>
     (\<forall>p. \<exists>g. grad st' p = Some g \<and>
        g = (case grad st p of
               None \<Rightarrow> autograd tc (data st) (ZeroGrad #
                 concat (map (\<lambda>i. [Forward ct (inp ! i) ((initHidden st # hs) ! i) (outs ! i)
                                     (hs ! i),
                                   Criterion (outs ! i) [tgt ! i] (ls ! i)]) [0..<length inp])) p
             | Some a \<Rightarrow> map2 (+) (map (\<lambda>x. 0) a) (autograd tc (data st) (ZeroGrad #
                 concat (map (\<lambda>i. [Forward ct (inp ! i) ((initHidden st # hs) ! i) (outs ! i)
                                     (hs ! i),
                                   Criterion (outs ! i) [tgt ! i] (ls ! i)]) [0..<length inp])) p)) \<and>
        data st' p = add_in_place tc (data st p) (- learning_rate) g) \<and>
     hidden_size st' = hidden_size st"
proof -
  let ?n = "length inp"
  let ?tgt = "unsqueeze tgt"
  let ?st0 = "zero_grad st"
  obtain v
    where loop: "train_loop tc ct inp ?tgt [0..<?n] (None, initHidden st, PyInt 0) ?st0 = Inr v"
    using assms
    by (cases "train_loop tc ct inp ?tgt [0..<?n] (None, initHidden st, PyInt 0) ?st0")
      (simp_all add: train_def Let_def)
  obtain o' h' l' st1 where v: "v = ((o', h', l'), st1)"
    by (cases v) auto
  have k1: "ebind (backward tc (length (calls st)) l' st1) (\<lambda>st2.
                ebind (update_loop tc parameters st2) (\<lambda>st3.
                  case o' of
                    None \<Rightarrow> Inl UnboundLocalError
                  | Some output \<Rightarrow>
                      (case l' of
                         PyInt n \<Rightarrow> Inl AttributeError
                       | Tensor v \<Rightarrow> Inr ((output, v / real ?n), st3))))
        = Inr ((out, lossv), st')"
    using assms loop v by (simp add: train_def Let_def)
  obtain st2
    where bw: "backward tc (length (calls st)) l' st1 = Inr st2"
      and k2: "ebind (update_loop tc parameters st2) (\<lambda>st3.
                  case o' of
                    None \<Rightarrow> Inl UnboundLocalError
                  | Some output \<Rightarrow>
                      (case l' of
                         PyInt n \<Rightarrow> Inl AttributeError
                       | Tensor v \<Rightarrow> Inr ((output, v / real ?n), st3)))
        = Inr ((out, lossv), st')"
    using k1 by (cases "backward tc (length (calls st)) l' st1") simp_all
  obtain st3
    where up: "update_loop tc parameters st2 = Inr st3"
      and fin: "(case o' of
                    None \<Rightarrow> Inl UnboundLocalError
                  | Some output \<Rightarrow>
                      (case l' of
                         PyInt n \<Rightarrow> Inl AttributeError
                       | Tensor v \<Rightarrow> Inr ((output, v / real ?n), st3)))
        = Inr ((out, lossv), st')"
    using k2 by (cases "update_loop tc parameters st2") simp_all
  from backward_Inr [OF bw] obtain w
    where l': "l' = Tensor w" and c2: "calls st2 = calls st1 @ [Backward w]"
      and g2: "\<forall>p. grad st2 p \<noteq> None" and d2: "data st2 = data st1"
      and s2: "hidden_size st2 = hidden_size st1"
    by blast
  from fin l' have o': "o' = Some out" and lossv: "lossv = w / real ?n" and st': "st' = st3"
    by (cases o'; simp)+
  from train_loop_Inr [OF loop [unfolded v]] obtain hs outs ls
    where len: "length hs = ?n" "length outs = ?n" "length ls = ?n"
      and c1: "calls st1 = calls ?st0 @
          concat (map (\<lambda>j. [Forward ct (inp ! ([0..<?n] ! j)) ((initHidden st # hs) ! j)
                              (outs ! j) (hs ! j),
                         Criterion (outs ! j) (?tgt ! ([0..<?n] ! j)) (ls ! j)])
                   [0..<length [0..<?n]])"
      and ch: "chained (initHidden st)
          (concat (map (\<lambda>j. [Forward ct (inp ! ([0..<?n] ! j)) ((initHidden st # hs) ! j)
                              (outs ! j) (hs ! j),
                         Criterion (outs ! j) (?tgt ! ([0..<?n] ! j)) (ls ! j)])
                   [0..<length [0..<?n]]))"
      and each: "\<forall>j < length [0..<?n]. [0..<?n] ! j < length inp \<and>
          [0..<?n] ! j < length ?tgt \<and>
          NLLLoss (outs ! j) (?tgt ! ([0..<?n] ! j)) = Inr (ls ! j)"
      and fl: "l' = foldl loss_add (PyInt 0) ls"
      and ol: "o' = (if [0..<?n] = [] then None else Some (last outs))"
      and d1: "data st1 = data ?st0" and s1: "hidden_size st1 = hidden_size ?st0"
      and g1: "grad st1 = grad ?st0"
    by auto
  from fl l' have ne: "ls \<noteq> []" and w: "w = sum_list ls"
    by (auto simp: foldl_loss_PyInt split: if_splits)
  with len have n: "inp \<noteq> []" by auto
  from each have each': "\<forall>i < ?n. i < length tgt \<and> NLLLoss (outs ! i) [tgt ! i] = Inr (ls ! i)"
    by (auto simp: nth_unsqueeze unsqueeze_def)
  have steps: "map (\<lambda>j. [Forward ct (inp ! ([0..<?n] ! j)) ((initHidden st # hs) ! j)
                              (outs ! j) (hs ! j),
                         Criterion (outs ! j) (?tgt ! ([0..<?n] ! j)) (ls ! j)])
                   [0..<length [0..<?n]]
      = map (\<lambda>i. [Forward ct (inp ! i) ((initHidden st # hs) ! i) (outs ! i) (hs ! i),
                         Criterion (outs ! i) [tgt ! i] (ls ! i)]) [0..<?n]"
    using each' by (intro map_cong) (auto simp: nth_unsqueeze)
  from update_loop_Inr [OF up parameters_all(2)] parameters_all(1)
  have upd: "\<forall>p. \<exists>g. grad st2 p = Some g \<and>
            data st3 p = add_in_place tc (data st2 p) (- learning_rate) g"
    and g3: "grad st3 = grad st2" and s3: "hidden_size st3 = hidden_size st2"
    and c3: "calls st3 = calls st2 @ map (\<lambda>p. AddScaled p (- learning_rate)) parameters"
    by auto
  have c0: "calls ?st0 = calls st @ [ZeroGrad]" "data ?st0 = data st"
    "hidden_size ?st0 = hidden_size st"
    by (simp_all add: zero_grad_def)
  let ?tape = "ZeroGrad #
      concat (map (\<lambda>i. [Forward ct (inp ! i) ((initHidden st # hs) ! i) (outs ! i) (hs ! i),
                        Criterion (outs ! i) [tgt ! i] (ls ! i)]) [0..<?n])"
  have tape: "drop (length (calls st)) (calls st1) = ?tape"
    unfolding c1 steps c0 by simp
  have g0: "grad ?st0 p = map_option (map (\<lambda>x. 0)) (grad st p)" for p
    by (simp add: zero_grad_def)
  have gr: "grad st2 p = Some (case grad st p of
             None \<Rightarrow> autograd tc (data st) ?tape p
           | Some a \<Rightarrow> map2 (+) (map (\<lambda>x. 0) a) (autograd tc (data st) ?tape p))" for p
    unfolding backward_grad [OF bw] tape g1 g0 d1 c0
    by (cases "grad st p") simp_all
  show ?thesis
  proof (rule exI [of _ hs], rule exI [of _ outs], rule exI [of _ ls], intro conjI)
    show "calls st' = calls st @ ZeroGrad #
       concat (map (\<lambda>i. [Forward ct (inp ! i) ((initHidden st # hs) ! i) (outs ! i) (hs ! i),
                         Criterion (outs ! i) [tgt ! i] (ls ! i)]) [0..<length inp]) @
       Backward (sum_list ls) # map (\<lambda>p. AddScaled p (- learning_rate)) parameters"
      unfolding st' c3 c2 c1 steps c0 w by simp
    show "chained (initHidden st)
       (concat (map (\<lambda>i. [Forward ct (inp ! i) ((initHidden st # hs) ! i) (outs ! i) (hs ! i),
                         Criterion (outs ! i) [tgt ! i] (ls ! i)]) [0..<length inp]))"
      using ch unfolding steps .
    show "out = last outs"
      using ol o' n by simp
    show "\<forall>p. \<exists>g. grad st' p = Some g \<and>
        g = (case grad st p of
               None \<Rightarrow> autograd tc (data st) ?tape p
             | Some a \<Rightarrow> map2 (+) (map (\<lambda>x. 0) a) (autograd tc (data st) ?tape p)) \<and>
        data st' p = add_in_place tc (data st p) (- learning_rate) g"
      using upd unfolding st' g3 d2 d1 c0 gr by simp
    show "hidden_size st' = hidden_size st"
      unfolding st' s3 s2 s1 c0 ..
  qed (use len n each' lossv w in simp_all)
qed

lemma NLLLoss_row:
  "0 \<le> t \<Longrightarrow> t < int (length row) \<Longrightarrow> NLLLoss [row] [t] = Inr (- (row ! nat t))"
  by (simp add: NLLLoss_def)





lemma sample_loop_Inr:
  assumes "sample_loop tc ct is (input, h, name) st = Inr (name', st')"
  shows "\<exists>evs. calls st' = calls st @ evs \<and> chained h evs \<and> list_all is_Forward evs \<and>
           (is \<noteq> [] \<longrightarrow> evs \<noteq> []) \<and> length evs \<le> length is \<and>
           (length name' + 1 = length name + length evs \<or>
            length evs = length is \<and> length name' = length name + length is)"
  using assms
proof (induction "is" arbitrary: input h name st)
  case Nil
  then show ?case by simp
next
  case (Cons i "is")
  obtain x where x: "getitem input 0 = Inr x"
    using Cons.prems by (cases "getitem input 0") simp_all
  obtain r1 where fw: "forward tc st ct x h = Inr r1"
    using Cons.prems x by (cases "forward tc st ct x h") simp_all
  obtain out h1 st1 where r1: "r1 = ((out, h1), st1)"
    by (metis surj_pair)
  obtain topv topi where tk: "topk tc out 1 = (topv, topi)"
    by (cases "topk tc out 1")
  have k1: "ebind (getitem topi 0) (\<lambda>row.
              ebind (getitem row 0) (\<lambda>topi.
                if topi = n_letters - 1 then Inr (name, st1)
                else ebind (getitem all_letters (int topi)) (\<lambda>letter.
                       ebind (inputTensor [letter]) (\<lambda>input'.
                         sample_loop tc ct is (input', h1, name @ [letter]) st1))))
        = Inr (name', st')"
    using Cons.prems x fw r1 tk by simp
  obtain row where row: "getitem topi 0 = Inr row"
    using k1 by (cases "getitem topi 0") simp_all
  obtain k where k: "getitem row 0 = Inr k"
    using k1 row by (cases "getitem row 0") simp_all
  from forward_Inr(2) [OF fw [unfolded r1]]
  have c1: "calls st1 = calls st @ [Forward ct x h out h1]"
    by (metis (no_types, lifting) rnn_state.select_convs(5) rnn_state.surjective
        rnn_state.update_convs(4,5))
  show ?case
  proof (cases "k = n_letters - 1")
    case True
    with k1 row k have "st' = st1" "name' = name" by simp_all
    with c1 show ?thesis by simp
  next
    case False
    with k1 row k obtain letter where "getitem all_letters (int k) = Inr letter"
      and k2: "ebind (inputTensor [letter]) (\<lambda>input'.
          sample_loop tc ct is (input', h1, name @ [letter]) st1) = Inr (name', st')"
      by (cases "getitem all_letters (int k)") simp_all
    then obtain input'
      where "sample_loop tc ct is (input', h1, name @ [letter]) st1 = Inr (name', st')"
      by (cases "inputTensor [letter]") simp_all
    from Cons.IH [OF this] obtain evs
      where evs: "calls st' = calls st1 @ evs" "chained h1 evs" "list_all is_Forward evs"
        "length evs \<le> length is"
        "length name' + 1 = length (name @ [letter]) + length evs \<or>
         length evs = length is \<and> length name' = length (name @ [letter]) + length is"
      by blast
    show ?thesis
    proof (rule exI [of _ "Forward ct x h out h1 # evs"], intro conjI)
      show "length name' + 1 = length name + length (Forward ct x h out h1 # evs) \<or>
          length (Forward ct x h out h1 # evs) = length (i # is) \<and>
          length name' = length name + length (i # is)"
        using evs(5) by auto
    qed (use c1 evs(1-4) in simp_all)
  qed
qed

lemma sample_Inr:
  assumes "sample tc all_categories category start_letter st = Inr (name, st')"
  shows "\<exists>evs. calls st' = calls st @ evs \<and> evs \<noteq> [] \<and> list_all is_Forward evs \<and>
           chained (initHidden st) evs \<and> length evs \<le> max_length \<and>
           (length name + 1 = length start_letter + length evs \<or>
            length evs = max_length \<and> length name = length start_letter + max_length)"
proof -
  obtain category_tensor where "categoryTensor all_categories category = Inr category_tensor"
    using assms by (cases "categoryTensor all_categories category") (simp_all add: sample_def)
  moreover obtain input where "inputTensor start_letter = Inr input"
    by (simp add: inputTensor_rows)
  ultimately have "sample_loop tc category_tensor [0..<max_length]
      (input, initHidden st, start_letter) st = Inr (name, st')"
    using assms by (simp add: sample_def Let_def)
  from sample_loop_Inr [OF this] show ?thesis
    by (auto simp: max_length_def)
qed

lemma chained_no_forward: "list_all (\<lambda>e. \<not> is_Forward e) es \<Longrightarrow> chained h es"
  by (induction h es rule: chained.induct) simp_all

lemma chained_append_no_forward:
  "list_all (\<lambda>e. \<not> is_Forward e) es' \<Longrightarrow> chained h (es @ es') = chained h es"
  by (induction h es rule: chained.induct) (simp_all add: chained_no_forward)

lemma forward_count:
  "length (filter is_Forward
     (concat (map (\<lambda>i. [Forward (c i) (x i) (h i) (out i) (h' i), Criterion (out i) (t i) (l i)])
        [0..<n]))) = n"
  by (induction n) simp_all




text \<open>
  Claim C7. The hidden state that \<open>forward\<close> returns is the output of the \<open>i2h\<close> layer on
  the concatenation of category, input and hidden state. In a call of \<open>train\<close> and in a
  call of \<open>sample\<close> the calls of the module are chained: the first one is given the
  all-zeros tensor of \<open>initHidden\<close>, of shape \<open>1 x hidden_size\<close>, and every later one the
  hidden state that the call before it returned. \<open>train\<close> calls the module once per input
  step. \<open>sample\<close> calls nothing but the module, at least once and at most \<open>max_length\<close>
  times: once more than it appends letters when it stops at EOS, and \<open>max_length\<close> times for
  \<open>max_length\<close> letters otherwise.
\<close>

theorem hidden_state_chained:
  "(forward tc st category input hidden = Inr ((output, hidden'), st1) \<longrightarrow>
      (\<exists>input_combined.
         cat1 [category, input, hidden] = Inr input_combined \<and>
         hidden' = Linear tc (data st I2H_weight) (data st I2H_bias) input_combined)) \<and>
   (train tc category_tensor input_line_tensor target_line_tensor st = Inr (r, st2) \<longrightarrow>
      (\<exists>evs. calls st2 = calls st @ evs \<and> chained (initHidden st) evs \<and>
         length (filter is_Forward evs) = length input_line_tensor)) \<and>
   (sample tc all_categories cat start_letter st = Inr (name, st3) \<longrightarrow>
      (\<exists>evs. calls st3 = calls st @ evs \<and> evs \<noteq> [] \<and> list_all is_Forward evs \<and>
         chained (initHidden st) evs \<and> length evs \<le> max_length \<and>
         (length name + 1 = length start_letter + length evs \<or>
          length evs = max_length \<and> length name = length start_letter + max_length))) \<and>
   initHidden st = [replicate (hidden_size st) 0]"
proof (intro conjI impI)
  assume "forward tc st category input hidden = Inr ((output, hidden'), st1)"
  then show "\<exists>input_combined.
      cat1 [category, input, hidden] = Inr input_combined \<and>
      hidden' = Linear tc (data st I2H_weight) (data st I2H_bias) input_combined"
    by (rule forward_Inr(1))
next
  assume tr: "train tc category_tensor input_line_tensor target_line_tensor st = Inr (r, st2)"
  obtain out lossv where r: "r = (out, lossv)" by (cases r)
  let ?n = "length input_line_tensor"
  from train_Inr [OF tr [unfolded r]] obtain hs outs ls
    where calls: "calls st2 = calls st @ ZeroGrad #
        concat (map (\<lambda>i. [Forward category_tensor (input_line_tensor ! i)
                            ((initHidden st # hs) ! i) (outs ! i) (hs ! i),
                          Criterion (outs ! i) [target_line_tensor ! i] (ls ! i)]) [0..<?n]) @
        Backward (sum_list ls) # map (\<lambda>p. AddScaled p (- learning_rate)) parameters"
      and ch: "chained (initHidden st)
        (concat (map (\<lambda>i. [Forward category_tensor (input_line_tensor ! i)
                            ((initHidden st # hs) ! i) (outs ! i) (hs ! i),
                          Criterion (outs ! i) [target_line_tensor ! i] (ls ! i)]) [0..<?n]))"
    by blast
  let ?steps = "concat (map (\<lambda>i. [Forward category_tensor (input_line_tensor ! i)
                            ((initHidden st # hs) ! i) (outs ! i) (hs ! i),
                          Criterion (outs ! i) [target_line_tensor ! i] (ls ! i)]) [0..<?n])"
  let ?tail = "Backward (sum_list ls) # map (\<lambda>p. AddScaled p (- learning_rate)) parameters"
  have tail: "list_all (\<lambda>e. \<not> is_Forward e) ?tail"
    by (simp add: list_all_iff)
  have "chained (initHidden st) (ZeroGrad # ?steps @ ?tail)"
    using ch chained_append_no_forward [OF tail, of "initHidden st" ?steps] by simp
  moreover have "filter is_Forward ?tail = []"
    by (simp add: filter_empty_conv)
  then have "length (filter is_Forward (ZeroGrad # ?steps @ ?tail)) = ?n"
    by (simp add: forward_count del: filter_concat)
  ultimately show "\<exists>evs. calls st2 = calls st @ evs \<and> chained (initHidden st) evs \<and>
      length (filter is_Forward evs) = ?n"
    using calls by blast
next
  assume "sample tc all_categories cat start_letter st = Inr (name, st3)"
  then show "\<exists>evs. calls st3 = calls st @ evs \<and> evs \<noteq> [] \<and> list_all is_Forward evs \<and>
      chained (initHidden st) evs \<and> length evs \<le> max_length \<and>
      (length name + 1 = length start_letter + length evs \<or>
       length evs = max_length \<and> length name = length start_letter + max_length)"
    by (rule sample_Inr)
next
  show "initHidden st = [replicate (hidden_size st) 0]"
    by (simp add: initHidden_def zeros2_def zeros1_def)
qed

section \<open>Running the small network\<close>

lemma argmax_unique:
  assumes "k < length row" "\<forall>j < length row. j \<noteq> k \<longrightarrow> row ! j < row ! k"
  shows "argmax row = k"
proof (rule ccontr)
  assume ne: "argmax row \<noteq> k"
  from assms(1) have "row \<noteq> []" by auto
  from argmax_highest [OF this] have "argmax row < length row" "row ! k \<le> row ! argmax row"
    using assms(1) by (simp_all add: highest_def)
  with assms(2) ne show False by fastforce
qed

lemma length_small_raw: "length (small_raw v) = 59"
  by (simp add: small_raw_def del: upt_Suc)

lemma small_raw_nth:
  "j < 59 \<Longrightarrow> small_raw v ! j = (if j = 1 then 5 / 2 else if j = 58 then v else 0)"
  by (simp add: small_raw_def del: upt_Suc)

lemma small_output_nth:
  "j < 59 \<Longrightarrow> small_output v ! j =
     small_raw v ! j / (1 - 1 / 10)
       - ln (sum_list (map exp (map (\<lambda>u. u / (1 - 1 / 10)) (small_raw v))))"
  unfolding small_output_def Let_def by (simp add: length_small_raw)

lemma length_small_output: "length (small_output v) = 59"
  by (simp add: small_output_def Let_def length_small_raw)

lemma argmax_small_output_letter: "v < 5 / 2 \<Longrightarrow> argmax (small_output v) = 1"
  by (rule argmax_unique)
    (simp_all add: length_small_output small_output_nth small_raw_nth divide_strict_right_mono)

lemma argmax_small_output_eos: "5 / 2 < v \<Longrightarrow> argmax (small_output v) = 58"
  by (rule argmax_unique)
    (simp_all add: length_small_output small_output_nth small_raw_nth divide_strict_right_mono)

lemma sum_list_small_hidden: "sum_list (small_hidden v) = v"
  by (simp add: small_hidden_def sum_list_replicate)

lemma small_i2h:
  "map (\<lambda>j. (replicate 128 0)[0 := - 1] ! j + one_hot 128 0 ! j * s) [0..<128]
     = small_hidden (s - 1)"
  unfolding small_hidden_def
  by (rule nth_equalityI) (auto simp: nth_one_hot nth_Cons' nth_list_update simp del: upt_Suc)

lemma small_i2o:
  "map (\<lambda>j. replicate 59 (0::real) ! j + replicate 59 0 ! j * s) [0..<59] = replicate 59 0"
  by (rule nth_equalityI) (auto simp del: upt_Suc)

lemma small_o2o:
  "map (\<lambda>j. (replicate 59 0)[1 := 5 / 2] ! j + one_hot 59 58 ! j * s) [0..<59]
     = map (\<lambda>j. if j = 1 then 5 / 2 else if j = 58 then s else 0) [0..<59]"
  by (rule nth_equalityI) (auto simp: nth_one_hot nth_list_update simp del: upt_Suc)

lemma small_forward:
  assumes "data st = data small_rnn"
  shows "forward small_torch st [c] [x] [h] =
     Inr (([small_output (sum_list c + sum_list x + sum_list h - 1)],
           [small_hidden (sum_list c + sum_list x + sum_list h - 1)]),
       st\<lparr>rng := Suc (rng st),
          calls := calls st @
            [Forward [c] [x] [h] [small_output (sum_list c + sum_list x + sum_list h - 1)]
               [small_hidden (sum_list c + sum_list x + sum_list h - 1)]]\<rparr>)"
proof -
  have d: "data st I2H_weight = one_hot 128 0" "data st I2H_bias = (replicate 128 0)[0 := - 1]"
    "data st I2O_weight = replicate 59 0" "data st I2O_bias = replicate 59 0"
    "data st O2O_weight = one_hot 59 58" "data st O2O_bias = (replicate 59 0)[1 := 5 / 2]"
    unfolding assms by (simp_all add: small_rnn_def n_letters_eq)
  let ?s = "sum_list c + sum_list x + sum_list h"
  have s: "sum_list (c @ x @ h) = ?s" by simp
  have lin: "Linear small_torch w b [r] = [map (\<lambda>j. b ! j + w ! j * sum_list r) [0..<length b]]"
    for w b r
    by (simp add: small_torch_def)
  have h: "Linear small_torch (data st I2H_weight) (data st I2H_bias) [c @ x @ h]
      = [small_hidden (?s - 1)]"
    by (simp only: lin d s length_list_update length_replicate small_i2h)
  have o: "Linear small_torch (data st I2O_weight) (data st I2O_bias) [c @ x @ h]
      = [replicate 59 0]"
    by (simp only: lin d s length_replicate small_i2o)
  have s2: "sum_list (small_hidden (?s - 1) @ replicate 59 0) = ?s - 1"
    by (simp add: sum_list_small_hidden sum_list_replicate)
  have o2: "Linear small_torch (data st O2O_weight) (data st O2O_bias)
      [small_hidden (?s - 1) @ replicate 59 0]
      = [small_raw (?s - 1)]"
    by (simp only: lin d s2 length_list_update length_replicate small_o2o small_raw_def)
  have dr: "Dropout small_torch p g y = (map (map (\<lambda>v. v / (1 - p))) y, Suc g)" for p g y
    by (simp add: small_torch_def)
  have ls: "LogSoftmax small_torch y = map (\<lambda>r. map (\<lambda>v. v - ln (sum_list (map exp r))) r) y"
    for y
    by (simp add: small_torch_def)
  show ?thesis
    unfolding forward_def cat1_rows ebind.simps Let_def h o o2 dr ls
    by (simp add: small_output_def Let_def)
qed

lemma sum_list_one_hot: "k < n \<Longrightarrow> sum_list (one_hot n k) = 1"
proof -
  assume k: "k < n"
  have "one_hot n k = replicate k 0 @ 1 # replicate (n - Suc k) 0"
    by (rule nth_equalityI) (use k in \<open>auto simp: one_hot_def nth_append nth_Cons'\<close>)
  then show ?thesis by (simp add: sum_list_replicate)
qed

lemma small_step_letter:
  assumes "data st = data small_rnn" "sum_list c = 1" "k < 59" "1 + v < 5 / 2"
  shows "sample_loop small_torch [c] (i # is)
           ([[one_hot n_letters k]], [small_hidden v], name) st =
         sample_loop small_torch [c] is
           ([[one_hot n_letters 1]], [small_hidden (1 + v)], name @ [of_char CHR ''b''])
           (st\<lparr>rng := Suc (rng st),
               calls := calls st @
                 [Forward [c] [one_hot n_letters k] [small_hidden v]
                    [small_output (1 + v)] [small_hidden (1 + v)]]\<rparr>)"
proof -
  have s: "sum_list c + sum_list (one_hot n_letters k) + sum_list (small_hidden v) - 1 = 1 + v"
    using assms(2,3) by (simp add: sum_list_one_hot n_letters_eq sum_list_small_hidden)
  have tk: "topk small_torch [r] 1 = ([[r ! argmax r]], [[argmax r]])" for r
    by (simp add: small_torch_def)
  have b: "all_letters ! 1 = of_char CHR ''b''" "1 < length all_letters"
    by (simp_all add: all_letters_codes upt_rec)
  have slot: "letter_slot (of_char CHR ''b'') = 1"
    by (simp add: letter_slot_def all_letters_codes upt_rec)
  have g: "getitem all_letters 1 = Inr (of_char CHR ''b'')"
    using getitem_nat [of 1 all_letters] b by simp
  from small_forward [OF assms(1), of c "one_hot n_letters k" "small_hidden v"]
  have fw: "forward small_torch st [c] [one_hot n_letters k] [small_hidden v] =
      Inr (([small_output (1 + v)], [small_hidden (1 + v)]),
        st\<lparr>rng := Suc (rng st),
           calls := calls st @
             [Forward [c] [one_hot n_letters k] [small_hidden v]
                [small_output (1 + v)] [small_hidden (1 + v)]]\<rparr>)"
    unfolding s .
  show ?thesis
    using fw tk [of "small_output (1 + v)"] argmax_small_output_letter [OF assms(4)] g slot
    by (simp add: getitem_0 inputTensor_letter n_letters_def length_all_letters)
qed

lemma small_step_eos:
  assumes "data st = data small_rnn" "sum_list c = 1" "k < 59" "5 / 2 < 1 + v"
  shows "sample_loop small_torch [c] (i # is)
           ([[one_hot n_letters k]], [small_hidden v], name) st =
         Inr (name,
           st\<lparr>rng := Suc (rng st),
               calls := calls st @
                 [Forward [c] [one_hot n_letters k] [small_hidden v]
                    [small_output (1 + v)] [small_hidden (1 + v)]]\<rparr>)"
proof -
  have s: "sum_list c + sum_list (one_hot n_letters k) + sum_list (small_hidden v) - 1 = 1 + v"
    using assms(2,3) by (simp add: sum_list_one_hot n_letters_eq sum_list_small_hidden)
  have tk: "topk small_torch [r] 1 = ([[r ! argmax r]], [[argmax r]])" for r
    by (simp add: small_torch_def)
  from small_forward [OF assms(1), of c "one_hot n_letters k" "small_hidden v"]
  have fw: "forward small_torch st [c] [one_hot n_letters k] [small_hidden v] =
      Inr (([small_output (1 + v)], [small_hidden (1 + v)]),
        st\<lparr>rng := Suc (rng st),
           calls := calls st @
             [Forward [c] [one_hot n_letters k] [small_hidden v]
                [small_output (1 + v)] [small_hidden (1 + v)]]\<rparr>)"
    unfolding s .
  show ?thesis
    using fw tk [of "small_output (1 + v)"] argmax_small_output_eos [OF assms(4)]
    by (simp add: getitem_0 n_letters_def length_all_letters)
qed

lemma small_sample:
  "\<exists>st'. sample small_torch [ustr ''Irish'', ustr ''Czech''] (ustr ''Czech'') (ustr ''A'') small_rnn
     = Inr (ustr ''Abb'', st') \<and>
     calls st' =
       [Forward [[0, 1]] [one_hot n_letters 26] [replicate 128 0] [small_output 1]
          [small_hidden 1],
        Forward [[0, 1]] [one_hot n_letters 1] [small_hidden 1] [small_output 2]
          [small_hidden 2],
        Forward [[0, 1]] [one_hot n_letters 1] [small_hidden 2] [small_output 3]
          [small_hidden 3]]"
proof -
  have inp: "inputTensor (ustr ''A'') = Inr [[one_hot n_letters 26]]"
    by (simp add: inputTensor_rows ustr_def letter_slot_def all_letters_codes upt_rec)
  have h0: "initHidden small_rnn = [small_hidden 0]"
  proof -
    have "replicate 128 (0::real) = 0 # replicate 127 0"
      by (simp add: numeral_eq_Suc)
    then show ?thesis
      by (simp add: initHidden_def small_rnn_def zeros2_def zeros1_def small_hidden_def)
  qed
  have steps: "[0..<max_length] = 0 # 1 # 2 # [3..<20]"
    by (simp add: max_length_def upt_rec)
  let ?st1 = "small_rnn\<lparr>rng := Suc (rng small_rnn),
      calls := calls small_rnn @
        [Forward [[0, 1]] [one_hot n_letters 26] [small_hidden 0]
           [small_output (1 + 0)] [small_hidden (1 + 0)]]\<rparr>"
  let ?st2 = "?st1\<lparr>rng := Suc (rng ?st1),
      calls := calls ?st1 @
        [Forward [[0, 1]] [one_hot n_letters 1] [small_hidden (1 + 0)]
           [small_output (1 + (1 + 0))] [small_hidden (1 + (1 + 0))]]\<rparr>"
  let ?st3 = "?st2\<lparr>rng := Suc (rng ?st2),
      calls := calls ?st2 @
        [Forward [[0, 1]] [one_hot n_letters 1] [small_hidden (1 + (1 + 0))]
           [small_output (1 + (1 + (1 + 0)))] [small_hidden (1 + (1 + (1 + 0)))]]\<rparr>"
  have "sample_loop small_torch [[0, 1]] (0 # 1 # 2 # [3..<20])
      ([[one_hot n_letters 26]], [small_hidden 0], ustr ''A'') small_rnn
      = sample_loop small_torch [[0, 1]] (1 # 2 # [3..<20])
          ([[one_hot n_letters 1]], [small_hidden (1 + 0)], ustr ''A'' @ [of_char CHR ''b''])
          ?st1"
    by (rule small_step_letter) simp_all
  also have "\<dots> = sample_loop small_torch [[0, 1]] (2 # [3..<20])
          ([[one_hot n_letters 1]], [small_hidden (1 + (1 + 0))],
           (ustr ''A'' @ [of_char CHR ''b'']) @ [of_char CHR ''b'']) ?st2"
    by (rule small_step_letter) simp_all
  also have "\<dots> = Inr ((ustr ''A'' @ [of_char CHR ''b'']) @ [of_char CHR ''b''], ?st3)"
    by (rule small_step_eos) simp_all
  finally have "sample small_torch [ustr ''Irish'', ustr ''Czech''] (ustr ''Czech'') (ustr ''A'')
      small_rnn = Inr ((ustr ''A'' @ [of_char CHR ''b'']) @ [of_char CHR ''b''], ?st3)"
    by (simp add: sample_def categoryTensor_Czech inp h0 steps Let_def)
  moreover have "(ustr ''A'' @ [of_char CHR ''b'']) @ [of_char CHR ''b''] = ustr ''Abb''"
    by (simp add: ustr_def)
  moreover have "small_hidden 0 = replicate 128 0"
    by (simp add: small_hidden_def numeral_eq_Suc)
  then have "calls ?st3 =
       [Forward [[0, 1]] [one_hot n_letters 26] [replicate 128 0] [small_output 1]
          [small_hidden 1],
        Forward [[0, 1]] [one_hot n_letters 1] [small_hidden 1] [small_output 2]
          [small_hidden 2],
        Forward [[0, 1]] [one_hot n_letters 1] [small_hidden 2] [small_output 3]
          [small_hidden 3]]"
    by (simp add: small_rnn_def)
  ultimately show ?thesis by (intro exI [of _ ?st3]) simp
qed

lemma small_train_step:
  assumes "data st = data small_rnn" "sum_list c = 1" "k < 59"
    and "i < length inp" "inp ! i = [one_hot n_letters k]"
    and "i < length tgt" "tgt ! i = [t]" "0 \<le> t" "t < 59"
  shows "train_loop small_torch [c] inp tgt (i # is) (o1, [small_hidden v], l) st =
         train_loop small_torch [c] inp tgt is
           (Some [small_output (1 + v)], [small_hidden (1 + v)],
            loss_add l (- (small_output (1 + v) ! nat t)))
           (st\<lparr>rng := Suc (rng st),
               calls := calls st @
                 [Forward [c] [one_hot n_letters k] [small_hidden v]
                    [small_output (1 + v)] [small_hidden (1 + v)],
                  Criterion [small_output (1 + v)] [t] (- (small_output (1 + v) ! nat t))]\<rparr>)"
proof -
  have s: "sum_list c + sum_list (one_hot n_letters k) + sum_list (small_hidden v) - 1 = 1 + v"
    using assms(2,3) by (simp add: sum_list_one_hot n_letters_eq sum_list_small_hidden)
  from small_forward [OF assms(1), of c "one_hot n_letters k" "small_hidden v"]
  have fw: "forward small_torch st [c] [one_hot n_letters k] [small_hidden v] =
      Inr (([small_output (1 + v)], [small_hidden (1 + v)]),
        st\<lparr>rng := Suc (rng st),
           calls := calls st @
             [Forward [c] [one_hot n_letters k] [small_hidden v]
                [small_output (1 + v)] [small_hidden (1 + v)]]\<rparr>)"
    unfolding s .
  have nll: "NLLLoss [small_output (1 + v)] [t] = Inr (- (small_output (1 + v) ! nat t))"
    using assms(8,9) by (simp add: NLLLoss_row length_small_output)
  show ?thesis
    using assms(4-7) by (simp add: getitem_nat fw criterion_def nll)
qed

lemma small_train:
  "\<exists>st'. train small_torch [[0, 1]] [[one_hot n_letters 26], [one_hot n_letters 1]] [1, 58]
       small_rnn
     = Inr (([small_output 2], (- (small_output 1 ! 1) - small_output 2 ! 58) / 2), st') \<and>
     data st' = (\<lambda>p. map (\<lambda>v. v - 5 / 10000) (data small_rnn p)) \<and>
     grad st' = (\<lambda>p. Some (map (\<lambda>x. 1) (data small_rnn p))) \<and>
     calls st' =
       [ZeroGrad,
        Forward [[0, 1]] [one_hot n_letters 26] [replicate 128 0] [small_output 1]
          [small_hidden 1],
        Criterion [small_output 1] [1] (- (small_output 1 ! 1)),
        Forward [[0, 1]] [one_hot n_letters 1] [small_hidden 1] [small_output 2]
          [small_hidden 2],
        Criterion [small_output 2] [58] (- (small_output 2 ! 58)),
        Backward (- (small_output 1 ! 1) - small_output 2 ! 58)]
       @ map (\<lambda>p. AddScaled p (- (5 / 10000))) parameters"
proof -
  let ?inp = "[[one_hot n_letters 26], [one_hot n_letters 1]]"
  let ?tgt = "[[1], [58]] :: int list list"
  define s0 where "s0 = zero_grad small_rnn"
  have s0: "data s0 = data small_rnn" "calls s0 = [ZeroGrad]" "grad s0 = (\<lambda>p. None)"
    by (simp_all add: s0_def zero_grad_def small_rnn_def)
  have z: "small_hidden 0 = replicate 128 0"
    by (simp add: small_hidden_def numeral_eq_Suc)
  have h0: "initHidden small_rnn = [small_hidden 0]"
    by (simp add: z initHidden_def small_rnn_def zeros2_def zeros1_def)
  define l0 where "l0 = - (small_output 1 ! 1)"
  define l1 where "l1 = - (small_output 2 ! 58)"
  define s1 where "s1 = s0\<lparr>rng := Suc (rng s0),
      calls := calls s0 @
        [Forward [[0, 1]] [one_hot n_letters 26] [small_hidden 0]
           [small_output (1 + 0)] [small_hidden (1 + 0)],
         Criterion [small_output (1 + 0)] [1] (- (small_output (1 + 0) ! nat 1))]\<rparr>"
  define s2 where "s2 = s1\<lparr>rng := Suc (rng s1),
      calls := calls s1 @
        [Forward [[0, 1]] [one_hot n_letters 1] [small_hidden (1 + 0)]
           [small_output (1 + (1 + 0))] [small_hidden (1 + (1 + 0))],
         Criterion [small_output (1 + (1 + 0))] [58]
           (- (small_output (1 + (1 + 0)) ! nat 58))]\<rparr>"
  have s1: "data s1 = data small_rnn"
    by (simp add: s1_def s0)
  have s2: "data s2 = data small_rnn" "grad s2 = (\<lambda>p. None)"
    "calls s2 = [ZeroGrad,
        Forward [[0, 1]] [one_hot n_letters 26] [replicate 128 0] [small_output 1]
          [small_hidden 1],
        Criterion [small_output 1] [1] l0,
        Forward [[0, 1]] [one_hot n_letters 1] [small_hidden 1] [small_output 2]
          [small_hidden 2],
        Criterion [small_output 2] [58] l1]"
    by (simp_all add: s2_def s1_def s0 z l0_def l1_def)
  have "train_loop small_torch [[0, 1]] ?inp ?tgt [0, 1] (None, [small_hidden 0], PyInt 0) s0
      = train_loop small_torch [[0, 1]] ?inp ?tgt [1]
          (Some [small_output (1 + 0)], [small_hidden (1 + 0)],
           loss_add (PyInt 0) (- (small_output (1 + 0) ! nat 1))) s1"
    unfolding s1_def by (rule small_train_step) (simp_all add: s0)
  also have "\<dots> = train_loop small_torch [[0, 1]] ?inp ?tgt []
          (Some [small_output (1 + (1 + 0))], [small_hidden (1 + (1 + 0))],
           loss_add (loss_add (PyInt 0) (- (small_output (1 + 0) ! nat 1)))
             (- (small_output (1 + (1 + 0)) ! nat 58))) s2"
    unfolding s2_def by (rule small_train_step) (simp_all add: s1)
  finally have loop: "train_loop small_torch [[0, 1]] ?inp ?tgt [0, 1]
      (None, [small_hidden 0], PyInt 0) s0
      = Inr ((Some [small_output 2], [small_hidden 2], Tensor (l0 + l1)), s2)"
    by (simp add: l0_def l1_def)
  define s3 where "s3 = s2\<lparr>grad := (\<lambda>p. Some (map (\<lambda>x. 1) (data small_rnn p))),
      calls := calls s2 @ [Backward (l0 + l1)]\<rparr>"
  have bw: "backward small_torch 0 (Tensor (l0 + l1)) s2 = Inr s3"
    by (simp add: backward_def Let_def s3_def s2) (simp add: small_torch_def)
  have "\<forall>p \<in> set parameters. grad s3 p \<noteq> None"
    by (simp add: s3_def)
  from update_loop_ok [OF this] obtain st' where up: "update_loop small_torch parameters s3 = Inr st'"
    by blast
  from update_loop_Inr [OF up parameters_all(2)] parameters_all(1)
  have upd: "\<forall>p. \<exists>g. grad s3 p = Some g \<and>
      data st' p = add_in_place small_torch (data s3 p) (- learning_rate) g"
    and c': "calls st' = calls s3 @ map (\<lambda>p. AddScaled p (- learning_rate)) parameters"
    and g': "grad st' = grad s3"
    by auto
  have "data st' p = map (\<lambda>v. v - 5 / 10000) (data small_rnn p)" for p
  proof -
    from upd have "data st' p =
        add_in_place small_torch (data s3 p) (- learning_rate) (map (\<lambda>x. 1) (data small_rnn p))"
      by (simp add: s3_def)
    also have "data s3 p = data small_rnn p"
      by (simp add: s3_def s2)
    finally show ?thesis
      by (simp add: small_torch_def learning_rate_def zip_map2 zip_same_conv_map)
  qed
  then have d': "data st' = (\<lambda>p. map (\<lambda>v. v - 5 / 10000) (data small_rnn p))"
    by (rule ext)
  have pre: "unsqueeze [1, 58] = ?tgt" "[0..<length ?inp] = [0, 1]"
    "length (calls small_rnn) = 0"
    by (simp_all add: unsqueeze_def upt_rec small_rnn_def)
  have "train small_torch [[0, 1]] ?inp [1, 58] small_rnn
      = Inr (([small_output 2], (l0 + l1) / real (length ?inp)), st')"
    unfolding train_def Let_def pre h0 s0_def [symmetric] loop ebind.simps prod.case bw up
    by simp
  then have tr: "train small_torch [[0, 1]] ?inp [1, 58] small_rnn
      = Inr (([small_output 2], (- (small_output 1 ! 1) - small_output 2 ! 58) / 2), st')"
    by (simp add: l0_def l1_def)
  have "calls st' =
       [ZeroGrad,
        Forward [[0, 1]] [one_hot n_letters 26] [replicate 128 0] [small_output 1]
          [small_hidden 1],
        Criterion [small_output 1] [1] (- (small_output 1 ! 1)),
        Forward [[0, 1]] [one_hot n_letters 1] [small_hidden 1] [small_output 2]
          [small_hidden 2],
        Criterion [small_output 2] [58] (- (small_output 2 ! 58)),
        Backward (- (small_output 1 ! 1) - small_output 2 ! 58)]
       @ map (\<lambda>p. AddScaled p (- (5 / 10000))) parameters"
    unfolding c' by (simp add: s3_def s2 learning_rate_def l0_def l1_def)
  moreover have "grad st' = (\<lambda>p. Some (map (\<lambda>x. 1) (data small_rnn p)))"
    unfolding g' by (simp add: s3_def)
  ultimately show ?thesis
    using tr d' by blast
qed

section \<open>The claims on the small network\<close>

theorem sample_greedy_witness:
  "torch_shapes small_torch \<and> topk_highest small_torch \<and> rnn_shaped small_rnn \<and>
   ustr ''Czech'' \<in> set [ustr ''Irish'', ustr ''Czech''] \<and> length (ustr ''A'') = 1 \<and>
   categoryTensor [ustr ''Irish'', ustr ''Czech''] (ustr ''Czech'') = Inr [[0, 1]] \<and>
   (\<exists>st'.
      sample small_torch [ustr ''Irish'', ustr ''Czech''] (ustr ''Czech'') (ustr ''A'') small_rnn
        = Inr (ustr ''Abb'', st') \<and>
      greedy small_torch [[0, 1]] max_length (of_char CHR ''A'') [replicate 128 0] small_rnn
        (ustr ''bb'') st')"
proof -
  let ?cs = "[ustr ''Irish'', ustr ''Czech'']"
  have h4: "ustr ''Czech'' \<in> set ?cs" by simp
  have h5: "length (ustr ''A'') = 1" by (simp add: ustr_def)
  from sample_greedy [OF small_torch_shapes small_torch_topk small_rnn_shaped h4 h5]
  obtain category_tensor name st'
    where ct: "categoryTensor ?cs (ustr ''Czech'') = Inr category_tensor"
      and sm: "sample small_torch ?cs (ustr ''Czech'') (ustr ''A'') small_rnn
        = Inr (ustr ''A'' @ name, st')"
      and gr: "greedy small_torch category_tensor max_length (hd (ustr ''A''))
         (initHidden small_rnn) small_rnn name st'"
    by blast
  from ct have c: "category_tensor = [[0, 1]]"
    by (simp add: categoryTensor_Czech)
  from sm small_sample have "ustr ''A'' @ name = ustr ''Abb''" by auto
  then have name: "name = ustr ''bb''" by (simp add: ustr_def)
  have "hd (ustr ''A'') = of_char CHR ''A''" by (simp add: ustr_def)
  moreover have "initHidden small_rnn = [replicate 128 0]"
    by (simp add: initHidden_def small_rnn_def zeros2_def zeros1_def)
  moreover have "ustr ''A'' @ ustr ''bb'' = ustr ''Abb''" by (simp add: ustr_def)
  ultimately have "sample small_torch ?cs (ustr ''Czech'') (ustr ''A'') small_rnn
        = Inr (ustr ''Abb'', st') \<and>
      greedy small_torch [[0, 1]] max_length (of_char CHR ''A'') [replicate 128 0] small_rnn
        (ustr ''bb'') st'"
    using sm gr unfolding c name by simp
  then show ?thesis
    using small_torch_shapes small_torch_topk small_rnn_shaped h4 h5 categoryTensor_Czech
    by blast
qed

theorem sample_terminates_witness:
  "torch_shapes small_torch \<and> topk_highest small_torch \<and> rnn_shaped small_rnn \<and>
   ustr ''Czech'' \<in> set [ustr ''Irish'', ustr ''Czech''] \<and> length (ustr ''A'') = 1 \<and>
   (\<exists>st'.
      sample small_torch [ustr ''Irish'', ustr ''Czech''] (ustr ''Czech'') (ustr ''A'') small_rnn
        = Inr (ustr ''Abb'', st') \<and>
      length (calls st') \<le> 20 \<and> list_all is_Forward (calls st')) \<and>
   take 1 (ustr ''Abb'') = ustr ''A'' \<and> length (ustr ''Abb'') = 3"
proof -
  let ?cs = "[ustr ''Irish'', ustr ''Czech'']"
  have h4: "ustr ''Czech'' \<in> set ?cs" by simp
  have h5: "length (ustr ''A'') = 1" by (simp add: ustr_def)
  from sample_terminates [OF small_torch_shapes small_torch_topk small_rnn_shaped h4 h5]
  obtain name st' evs
    where sm: "sample small_torch ?cs (ustr ''Czech'') (ustr ''A'') small_rnn = Inr (name, st')"
      and rest: "calls st' = calls small_rnn @ evs" "list_all is_Forward evs"
        "length evs \<le> max_length" "max_length = 20"
    by blast
  from sm small_sample have name: "name = ustr ''Abb''" by auto
  have "calls small_rnn = []" by (simp add: small_rnn_def)
  with sm rest have "sample small_torch ?cs (ustr ''Czech'') (ustr ''A'') small_rnn
        = Inr (ustr ''Abb'', st') \<and>
      length (calls st') \<le> 20 \<and> list_all is_Forward (calls st')"
    unfolding name by simp
  moreover have "take 1 (ustr ''Abb'') = ustr ''A''" "length (ustr ''Abb'') = 3"
    by (simp_all add: ustr_def)
  ultimately show ?thesis
    using small_torch_shapes small_torch_topk small_rnn_shaped h4 h5 by blast
qed




theorem hidden_state_chained_witness:
  "\<exists>st1 r st2 st3.
     forward small_torch small_rnn [[0, 1]] [one_hot n_letters 26] [replicate 128 0]
       = Inr (([small_output 1], [small_hidden 1]), st1) \<and>
     [small_hidden 1] = Linear small_torch (data small_rnn I2H_weight) (data small_rnn I2H_bias)
            [[0, 1] @ one_hot n_letters 26 @ replicate 128 0] \<and>
     train small_torch [[0, 1]] [[one_hot n_letters 26], [one_hot n_letters 1]] [1, 58] small_rnn
       = Inr (r, st2) \<and>
     chained [replicate 128 0] (calls st2) \<and> length (filter is_Forward (calls st2)) = 2 \<and>
     sample small_torch [ustr ''Irish'', ustr ''Czech''] (ustr ''Czech'') (ustr ''A'') small_rnn
       = Inr (ustr ''Abb'', st3) \<and>
     calls st3 =
       [Forward [[0, 1]] [one_hot n_letters 26] [replicate 128 0] [small_output 1]
          [small_hidden 1],
        Forward [[0, 1]] [one_hot n_letters 1] [small_hidden 1] [small_output 2]
          [small_hidden 2],
        Forward [[0, 1]] [one_hot n_letters 1] [small_hidden 2] [small_output 3]
          [small_hidden 3]] \<and>
     chained [replicate 128 0] (calls st3) \<and> length (calls st3) \<le> max_length \<and>
     length (ustr ''Abb'') + 1 = length (ustr ''A'') + length (calls st3)"
proof -
  have h0: "initHidden small_rnn = [replicate 128 0]"
    by (simp add: initHidden_def small_rnn_def zeros2_def zeros1_def)
  have c0: "calls small_rnn = []" by (simp add: small_rnn_def)
  have "sum_list [0, 1 :: real] + sum_list (one_hot n_letters 26)
      + sum_list (replicate 128 (0 :: real)) - 1 = 1"
    by (simp add: sum_list_one_hot n_letters_eq sum_list_replicate)
  with small_forward [of small_rnn "[0, 1]" "one_hot n_letters 26" "replicate 128 0"]
  obtain st1
    where fw: "forward small_torch small_rnn [[0, 1]] [one_hot n_letters 26] [replicate 128 0]
      = Inr (([small_output 1], [small_hidden 1]), st1)"
    by simp
  from small_train obtain r st2
    where tr: "train small_torch [[0, 1]] [[one_hot n_letters 26], [one_hot n_letters 1]] [1, 58]
      small_rnn = Inr (r, st2)"
    by blast
  from small_sample obtain st3
    where sm: "sample small_torch [ustr ''Irish'', ustr ''Czech''] (ustr ''Czech'') (ustr ''A'')
      small_rnn = Inr (ustr ''Abb'', st3)"
      and c3: "calls st3 =
       [Forward [[0, 1]] [one_hot n_letters 26] [replicate 128 0] [small_output 1]
          [small_hidden 1],
        Forward [[0, 1]] [one_hot n_letters 1] [small_hidden 1] [small_output 2]
          [small_hidden 2],
        Forward [[0, 1]] [one_hot n_letters 1] [small_hidden 2] [small_output 3]
          [small_hidden 3]]"
    by blast
  note T = hidden_state_chained
  from T [THEN conjunct1, THEN mp, OF fw]
  have A: "[small_hidden 1] =
      Linear small_torch (data small_rnn I2H_weight) (data small_rnn I2H_bias)
            [[0, 1] @ one_hot n_letters 26 @ replicate 128 0]"
    by (simp add: cat1_rows)
  from T [THEN conjunct2, THEN conjunct1, THEN mp, OF tr]
  have B: "chained [replicate 128 0] (calls st2)" "length (filter is_Forward (calls st2)) = 2"
    by (auto simp: h0 c0)
  from T [THEN conjunct2, THEN conjunct2, THEN conjunct1, THEN mp, OF sm]
  have C: "chained [replicate 128 0] (calls st3)" "length (calls st3) \<le> max_length"
    by (auto simp: h0 c0)
  have D: "length (ustr ''Abb'') + 1 = length (ustr ''A'') + length (calls st3)"
    unfolding c3 by (simp add: ustr_def)
  from fw A tr B sm c3 C D show ?thesis by blast
qed

end
